theory Spec2Isabelle
  imports Complex_Main "HOL-Library.AList"
begin

section \<open>Screenshot extraction: configuration\<close>

text \<open>
  The class \<open>ScreenshotConfig\<close> of \<open>screenshot_extractor.py\<close>, with its default
  values. Python's unbounded \<open>int\<close> is \<open>int\<close>, \<open>str\<close> is \<open>string\<close>.
\<close>

record ScreenshotConfig =
  image_quality :: int
  image_format :: string
  max_concurrent_extractions :: int
  timeout_seconds :: int
  screenshot_subdir :: string
  dedup_threshold_ms :: int
  fast_seek :: bool

definition default_config :: ScreenshotConfig where
  "default_config =
     \<lparr> image_quality = 2, image_format = ''jpg'', max_concurrent_extractions = 4,
       timeout_seconds = 30, screenshot_subdir = ''screenshots'',
       dedup_threshold_ms = 500, fast_seek = True \<rparr>"

section \<open>Deduplication of timestamps\<close>

text \<open>
  \<open>_deduplicate_timestamps\<close>: the candidates are sorted without duplicates
  (\<open>sorted(set(timestamps_ms))\<close>), the first one is kept, and the sweep keeps a
  timestamp when it is at least the threshold past the last kept one
  (\<open>deduplicated[-1]\<close>). The list \<open>deduplicated\<close> is never empty inside the loop.
\<close>

fun dedup_sweep :: "int \<Rightarrow> int list \<Rightarrow> int list \<Rightarrow> int list" where
  "dedup_sweep thr deduplicated [] = deduplicated"
| "dedup_sweep thr deduplicated (ts # rest) =
     (if ts - last deduplicated \<ge> thr
      then dedup_sweep thr (deduplicated @ [ts]) rest
      else dedup_sweep thr deduplicated rest)"

definition deduplicate_timestamps :: "ScreenshotConfig \<Rightarrow> int list \<Rightarrow> int list" where
  "deduplicate_timestamps cfg timestamps_ms =
     (if timestamps_ms = [] then []
      else (case sort (remdups timestamps_ms) of
              [] \<Rightarrow> []
            | first # rest \<Rightarrow> dedup_sweep (dedup_threshold_ms cfg) [first] rest))"

section \<open>Numbers, errors, paths\<close>

text \<open>
  A Python \<open>float\<close>, as far as the code depends on it: a finite value (an exact rational;
  rounding and overflow are not modelled), the two infinities and NaN. A Python \<open>int\<close>
  met in mixed arithmetic is the finite value \<open>Fin (of_int n)\<close>.
\<close>

datatype pyfloat = Fin rat | PInf | NInf | NaN

text \<open>\<open>a < b\<close> on numbers: every comparison with NaN is false.\<close>

fun pf_less :: "pyfloat \<Rightarrow> pyfloat \<Rightarrow> bool" where
  "pf_less NaN _ = False"
| "pf_less _ NaN = False"
| "pf_less (Fin a) (Fin b) = (a < b)"
| "pf_less (Fin a) PInf = True"
| "pf_less (Fin a) NInf = False"
| "pf_less PInf _ = False"
| "pf_less NInf NInf = False"
| "pf_less NInf _ = True"

text \<open>
  The builtins \<open>min(a, b)\<close> and \<open>max(a, b)\<close>: the first argument stays unless the
  second is smaller (\<open>b < a\<close>), respectively greater (\<open>b > a\<close>).
\<close>

definition py_min :: "pyfloat \<Rightarrow> pyfloat \<Rightarrow> pyfloat" where
  "py_min a b = (if pf_less b a then b else a)"

definition py_max :: "pyfloat \<Rightarrow> pyfloat \<Rightarrow> pyfloat" where
  "py_max a b = (if pf_less a b then b else a)"

text \<open>\<open>x - c\<close>, \<open>x * c\<close> and \<open>x / c\<close> for a finite constant \<open>c > 0\<close>.\<close>

fun pf_sub_const :: "pyfloat \<Rightarrow> rat \<Rightarrow> pyfloat" where
  "pf_sub_const (Fin x) c = Fin (x - c)"
| "pf_sub_const v c = v"

fun pf_mul_const :: "pyfloat \<Rightarrow> rat \<Rightarrow> pyfloat" where
  "pf_mul_const (Fin x) c = Fin (x * c)"
| "pf_mul_const v c = v"

fun pf_div_const :: "pyfloat \<Rightarrow> rat \<Rightarrow> pyfloat" where
  "pf_div_const (Fin x) c = Fin (x / c)"
| "pf_div_const v c = v"

datatype py_error = KeyError | IndexError | ValueError | OSError | NeverActive | ApiError

text \<open>
  A \<open>pathlib.Path\<close> built as \<open>screenshots_dir / filename\<close>: the directory and the final
  component (\<open>.name\<close>). File names here never contain a separator.
\<close>

datatype path = Path (path_parent: string) (path_name: string)

text \<open>\<open>str(n)\<close> for an integer, and the format \<open>{n:03d}\<close> of a non-negative one.\<close>

definition digit_char :: "nat \<Rightarrow> char" where
  "digit_char d = ''0123456789'' ! d"

function str_nat :: "nat \<Rightarrow> string" where
  "str_nat n = (if n < 10 then [digit_char n] else str_nat (n div 10) @ [digit_char (n mod 10)])"
  by pat_completeness auto
termination
  by (relation "measure id") auto

declare str_nat.simps [simp del]

definition str_int :: "int \<Rightarrow> string" where
  "str_int i = (if i < 0 then CHR ''-'' # str_nat (nat (- i)) else str_nat (nat i))"

definition format_03d :: "nat \<Rightarrow> string" where
  "format_03d n = replicate (3 - length (str_nat n)) CHR ''0'' @ str_nat n"

section \<open>Events\<close>

text \<open>The models of \<open>models.py\<close> that the extractor reads and writes.\<close>

datatype EventType = SCREEN_CHANGE | USER_ACTION | TRANSCRIPT | APPLICATION_SWITCH | WORKFLOW_STEP

record ToolIdentification =
  tool_name :: string
  tool_type :: "string option"
  tool_url :: "string option"
  tool_version :: "string option"

record WorkflowStep =
  step_number :: "int option"
  step_action :: "string option"
  tool_used :: "string option"
  data_objects :: "string list option"
  screenshot_description :: "string option"

record VideoEvent =
  timestamp_ms :: "int option"
  event_type :: "EventType option"
  tool :: "ToolIdentification option"
  description :: string
  workflow_step :: "WorkflowStep option"
  confidence_score :: "pyfloat option"
  audio_transcript :: "string option"
  screenshot_path :: "string option"

section \<open>Planning the extraction\<close>

text \<open>
  \<open>_validate_timestamp\<close>: a negative timestamp is refused; any other is clamped to
  \<open>max(0, min(timestamp_ms, max_duration_ms - 100))\<close> and returned in seconds.
\<close>

definition validate_timestamp :: "int \<Rightarrow> pyfloat \<Rightarrow> pyfloat option" where
  "validate_timestamp ts max_duration_ms =
     (if ts < 0 then None
      else (let max_timestamp_ms = pf_sub_const max_duration_ms 100;
                clamped_ms = py_max (Fin 0) (py_min (Fin (of_int ts)) max_timestamp_ms)
            in Some (pf_div_const clamped_ms 1000)))"

text \<open>
  A Python \<open>dict\<close> is an association list in insertion order with distinct keys:
  \<open>AList.update\<close> overwrites the value of a present key in place and appends a new key.
  \<open>timestamp_to_events.setdefault(ts, []).append(i)\<close>:
\<close>

definition setdefault_append :: "int \<Rightarrow> nat \<Rightarrow> (int \<times> nat list) list \<Rightarrow> (int \<times> nat list) list" where
  "setdefault_append ts i d =
     AList.update ts ((case map_of d ts of None \<Rightarrow> [] | Some l \<Rightarrow> l) @ [i]) d"

text \<open>The first loop of \<open>_prepare_extraction_tasks\<close>, over \<open>enumerate(events)\<close>.\<close>

fun collect_timestamps ::
  "nat \<Rightarrow> VideoEvent list \<Rightarrow> (int \<times> nat list) list \<Rightarrow> (int \<times> nat list) list" where
  "collect_timestamps i [] d = d"
| "collect_timestamps i (event # events) d =
     (case timestamp_ms event of
        None \<Rightarrow> collect_timestamps (Suc i) events d
      | Some ts \<Rightarrow> collect_timestamps (Suc i) events (setdefault_append ts i d))"

text \<open>A task: the timestamp in seconds, the output path, the index of the owning event.\<close>

type_synonym task = "pyfloat \<times> path \<times> nat"

definition task_filename :: "ScreenshotConfig \<Rightarrow> nat \<Rightarrow> int \<Rightarrow> string" where
  "task_filename cfg first_event_idx ts =
     ''event_'' @ format_03d (first_event_idx + 1) @ ''_'' @ str_int ts @ ''ms.''
       @ image_format cfg"

text \<open>
  The second loop, over the deduplicated timestamps. The lookups
  \<open>timestamp_to_events[timestamp_ms][0]\<close> raise on a missing key or an empty list.
\<close>

fun plan_loop ::
  "ScreenshotConfig \<Rightarrow> (int \<times> nat list) list \<Rightarrow> pyfloat \<Rightarrow> string \<Rightarrow> int list
     \<Rightarrow> (int \<times> task) list \<Rightarrow> py_error + (int \<times> task) list" where
  "plan_loop cfg tte dur dir [] tasks = Inr tasks"
| "plan_loop cfg tte dur dir (ts # rest) tasks =
     (case validate_timestamp ts dur of
        None \<Rightarrow> plan_loop cfg tte dur dir rest tasks
      | Some timestamp_sec \<Rightarrow>
          (case map_of tte ts of
             None \<Rightarrow> Inl KeyError
           | Some [] \<Rightarrow> Inl IndexError
           | Some (first_event_idx # _) \<Rightarrow>
               plan_loop cfg tte dur dir rest
                 (AList.update ts
                    (timestamp_sec, Path dir (task_filename cfg first_event_idx ts), first_event_idx)
                    tasks)))"

definition prepare_extraction_tasks ::
  "ScreenshotConfig \<Rightarrow> VideoEvent list \<Rightarrow> pyfloat \<Rightarrow> string \<Rightarrow> py_error + (int \<times> task) list" where
  "prepare_extraction_tasks cfg events video_duration_ms screenshots_dir =
     (let timestamp_to_events = collect_timestamps 0 events [];
          unique_timestamps = deduplicate_timestamps cfg (map fst timestamp_to_events)
      in plan_loop cfg timestamp_to_events video_duration_ms screenshots_dir unique_timestamps [])"

text \<open>
  The candidate timestamps of a list of events, and the index of the first event with a
  given timestamp (the length of the list when there is none).
\<close>

definition candidates :: "VideoEvent list \<Rightarrow> int list" where
  "candidates events = List.map_filter timestamp_ms events"

definition first_index :: "int \<Rightarrow> VideoEvent list \<Rightarrow> nat" where
  "first_index ts events = length (takeWhile (\<lambda>e. timestamp_ms e \<noteq> Some ts) events)"

text \<open>
  The task the second loop builds for a kept timestamp \<open>ts\<close>, and an event that has only
  a timestamp (for concrete runs).
\<close>

definition planned_task ::
  "ScreenshotConfig \<Rightarrow> VideoEvent list \<Rightarrow> pyfloat \<Rightarrow> string \<Rightarrow> int \<Rightarrow> int \<times> task" where
  "planned_task cfg events dur dir ts =
     (ts, the (validate_timestamp ts dur),
      Path dir (task_filename cfg (first_index ts events) ts), first_index ts events)"

definition event_at :: "int \<Rightarrow> VideoEvent" where
  "event_at ts = \<lparr> timestamp_ms = Some ts, event_type = Some USER_ACTION, tool = None,
     description = ''click'', workflow_step = None, confidence_score = None,
     audio_transcript = None, screenshot_path = None \<rparr>"

text \<open>Kept timestamps: strictly ascending, any two at least the threshold apart.\<close>

definition spaced :: "int \<Rightarrow> int list \<Rightarrow> bool" where
  "spaced thr xs = sorted_wrt (\<lambda>a b. a < b \<and> thr \<le> b - a) xs"

section \<open>The duration probe\<close>


text \<open>
  Python's \<open>a / b\<close> on floats: a zero divisor raises \<open>ZeroDivisionError\<close> (the value
  \<open>None\<close> here), whatever the dividend.
\<close>

fun pf_div :: "pyfloat \<Rightarrow> pyfloat \<Rightarrow> pyfloat option" where
  "pf_div a (Fin b) =
     (if b = 0 then None
      else Some (case a of
                   Fin x \<Rightarrow> Fin (x / b)
                 | PInf \<Rightarrow> (if 0 < b then PInf else NInf)
                 | NInf \<Rightarrow> (if 0 < b then NInf else PInf)
                 | NaN \<Rightarrow> NaN))"
| "pf_div (Fin x) PInf = Some (Fin 0)"
| "pf_div (Fin x) NInf = Some (Fin 0)"
| "pf_div a b = Some NaN"

text \<open>
  What the probe reads in a report of the inspection tool, by what the code does with it.
  A duration field (\<open>.get("duration")\<close>): absent or falsy; the string \<open>"N/A"\<close>; a truthy
  value on which \<open>float()\<close> raises; a truthy value with its \<open>float()\<close> (the string
  \<open>"0.000000"\<close> is \<open>Numeric (Fin 0)\<close>).
\<close>

datatype duration_field = NoValue | NotAvailable | NotNumeric | Numeric pyfloat

text \<open>
  \<open>nb_read_frames\<close>: falsy; truthy with \<open>int()\<close> raising; truthy with its \<open>int()\<close>.
  \<open>r_frame_rate\<close>: falsy; a value on which \<open>"/" in frame_rate\<close>, \<open>split\<close> or the
  unpacking into two parts raises; a string \<open>num/den\<close> with the \<open>float()\<close> of each part
  (\<open>None\<close> when it raises); a string without \<open>/\<close> with its \<open>float()\<close>.
\<close>

datatype count_field = NoCount | CountNotInt | Count int

datatype rate_field = NoRate | RateUnusable | Ratio "pyfloat option" "pyfloat option"
  | Plain "pyfloat option"

text \<open>
  The parsed standard output of the three inspection modes. \<open>Unreadable\<close>: \<open>json.loads\<close>
  raises, or the document is not made of objects where \<open>.get\<close> is called.
\<close>

datatype format_report = FormatUnreadable | FormatDuration duration_field

datatype stream_report = StreamUnreadable | NoStreams | StreamDuration duration_field

datatype frames_report = FramesUnreadable | NoFrameStreams | Frames count_field rate_field

text \<open>One \<open>subprocess.run\<close>: a timeout, another exception, or an exit code with the report.\<close>

datatype 'r tool_run = TimeoutExpired | RunRaised | Exited int 'r

record probe_world =
  format_run :: "format_report tool_run"
  stream_run :: "stream_report tool_run"
  frames_run :: "frames_report tool_run"

text \<open>
  \<open>if duration_sec and duration_sec != "N/A": return float(duration_sec) * 1000\<close>.
  \<open>Some v\<close> is \<open>return v\<close>; \<open>None\<close> is falling through (or the \<open>except\<close> branch) to
  the next method.
\<close>

definition read_duration :: "duration_field \<Rightarrow> pyfloat option" where
  "read_duration duration_sec =
     (case duration_sec of
        NoValue \<Rightarrow> None
      | NotAvailable \<Rightarrow> None
      | NotNumeric \<Rightarrow> None
      | Numeric v \<Rightarrow> Some (pf_mul_const v 1000))"

definition frame_rate_fps :: "rate_field \<Rightarrow> pyfloat option" where
  "frame_rate_fps frame_rate =
     (case frame_rate of
        NoRate \<Rightarrow> None
      | RateUnusable \<Rightarrow> None
      | Ratio None _ \<Rightarrow> None
      | Ratio (Some num) None \<Rightarrow> None
      | Ratio (Some num) (Some den) \<Rightarrow> pf_div num den
      | Plain None \<Rightarrow> None
      | Plain (Some fps) \<Rightarrow> Some fps)"

definition count_frames_duration :: "count_field \<Rightarrow> rate_field \<Rightarrow> pyfloat option" where
  "count_frames_duration frame_count frame_rate =
     (if frame_count = NoCount \<or> frame_rate = NoRate then None
      else (case frame_rate_fps frame_rate of
              None \<Rightarrow> None
            | Some fps \<Rightarrow>
                (case frame_count of
                   Count n \<Rightarrow>
                     (case pf_div (Fin (of_int n)) fps of
                        None \<Rightarrow> None
                      | Some duration_sec \<Rightarrow> Some (pf_mul_const duration_sec 1000))
                 | _ \<Rightarrow> None)))"

text \<open>The body of the loop over \<open>enumerate(methods)\<close> for the method of index \<open>i\<close>.\<close>

definition method_outcome :: "nat \<Rightarrow> probe_world \<Rightarrow> pyfloat option" where
  "method_outcome i w =
     (if i = 0 then
        (case format_run w of
           TimeoutExpired \<Rightarrow> None
         | RunRaised \<Rightarrow> None
         | Exited returncode report \<Rightarrow>
             (if returncode = 0 then
                (case report of
                   FormatUnreadable \<Rightarrow> None
                 | FormatDuration duration_sec \<Rightarrow> read_duration duration_sec)
              else None))
      else if i = 1 then
        (case stream_run w of
           TimeoutExpired \<Rightarrow> None
         | RunRaised \<Rightarrow> None
         | Exited returncode report \<Rightarrow>
             (if returncode = 0 then
                (case report of
                   StreamUnreadable \<Rightarrow> None
                 | NoStreams \<Rightarrow> None
                 | StreamDuration duration_sec \<Rightarrow> read_duration duration_sec)
              else None))
      else if i = 2 then
        (case frames_run w of
           TimeoutExpired \<Rightarrow> None
         | RunRaised \<Rightarrow> None
         | Exited returncode report \<Rightarrow>
             (if returncode = 0 then
                (case report of
                   FramesUnreadable \<Rightarrow> None
                 | NoFrameStreams \<Rightarrow> None
                 | Frames frame_count frame_rate \<Rightarrow> count_frames_duration frame_count frame_rate)
              else None))
      else None)"

text \<open>
  The loop: the methods in the order of the list, each run once; the first \<open>return\<close>
  ends it. The second component lists the methods that were run, in order.
\<close>

fun try_methods :: "probe_world \<Rightarrow> nat list \<Rightarrow> nat list \<Rightarrow> pyfloat option \<times> nat list" where
  "try_methods w [] invoked = (None, invoked)"
| "try_methods w (i # rest) invoked =
     (case method_outcome i w of
        Some duration_ms \<Rightarrow> (Some duration_ms, invoked @ [i])
      | None \<Rightarrow> try_methods w rest (invoked @ [i]))"

definition get_video_duration_ms :: "probe_world \<Rightarrow> pyfloat option \<times> nat list" where
  "get_video_duration_ms w = try_methods w [0, 1, 2] []"

definition finite_positive :: "pyfloat \<Rightarrow> bool" where
  "finite_positive v = (case v of Fin x \<Rightarrow> 0 < x | _ \<Rightarrow> False)"

definition zero_then_ten :: probe_world where
  "zero_then_ten = \<lparr> format_run = Exited 0 (FormatDuration (Numeric (Fin 0))),
     stream_run = Exited 0 (StreamDuration (Numeric (Fin 10))),
     frames_run = TimeoutExpired \<rparr>"

definition na_then_frames :: probe_world where
  "na_then_frames = \<lparr> format_run = Exited 0 (FormatDuration NotAvailable),
     stream_run = Exited 1 NoStreams,
     frames_run = Exited 0 (Frames (Count 300) (Ratio (Some (Fin 30)) (Some (Fin 1)))) \<rparr>"

section \<open>Executing the plan\<close>

text \<open>
  One run of the capture tool inside \<open>_extract_single_screenshot\<close>: a timeout, another
  exception, or an exit code together with whether the output file exists afterwards.
  All three are handled inside the function, which returns a boolean.
\<close>

datatype capture = CaptureTimeout | CaptureRaised | CaptureExit int bool

definition extract_single_screenshot :: "capture \<Rightarrow> bool" where
  "extract_single_screenshot c =
     (case c of
        CaptureExit returncode output_exists \<Rightarrow> returncode = 0 \<and> output_exists
      | CaptureTimeout \<Rightarrow> False
      | CaptureRaised \<Rightarrow> False)"

text \<open>
  What \<open>future.result()\<close> gives for a submitted task: the boolean of the function, or an
  exception that escaped it (raised again by \<open>result()\<close>).
\<close>

datatype task_run = Ran capture | WorkerRaised

text \<open>
  The collection loop of \<open>_batch_extract_screenshots\<close>, over the futures in the order in
  which they complete. The lookup \<open>extraction_tasks[timestamp_ms]\<close> is inside the
  \<open>try\<close>: a missing key is recorded as \<open>None\<close> like any other exception.
\<close>

fun collect_results ::
  "(int \<Rightarrow> task_run) \<Rightarrow> (int \<times> task) list \<Rightarrow> int list \<Rightarrow> (int \<times> string option) list
     \<Rightarrow> (int \<times> string option) list" where
  "collect_results env extraction_tasks [] results = results"
| "collect_results env extraction_tasks (ts # completed) results =
     (case env ts of
        WorkerRaised \<Rightarrow>
          collect_results env extraction_tasks completed (AList.update ts None results)
      | Ran c \<Rightarrow>
          (if extract_single_screenshot c then
             (case map_of extraction_tasks ts of
                None \<Rightarrow>
                  collect_results env extraction_tasks completed
                    (AList.update ts None results)
              | Some (timestamp_sec, output_path, idx) \<Rightarrow>
                  collect_results env extraction_tasks completed
                    (AList.update ts (Some (path_name output_path)) results))
           else collect_results env extraction_tasks completed
                  (AList.update ts None results)))"

text \<open>
  \<open>_batch_extract_screenshots\<close>. \<open>ThreadPoolExecutor(max_workers)\<close> raises \<open>ValueError\<close>
  unless \<open>max_workers\<close> is positive. \<open>completion\<close> gives the order in which the
  submitted futures complete (\<open>as_completed\<close>).
\<close>

definition batch_extract_screenshots ::
  "ScreenshotConfig \<Rightarrow> (int \<Rightarrow> task_run) \<Rightarrow> (int list \<Rightarrow> int list) \<Rightarrow> (int \<times> task) list
     \<Rightarrow> py_error + (int \<times> string option) list" where
  "batch_extract_screenshots cfg env completion extraction_tasks =
     (if max_concurrent_extractions cfg \<le> 0 then Inl ValueError
      else Inr (collect_results env extraction_tasks (completion (map fst extraction_tasks)) []))"

text \<open>The entry the loop records for a timestamp.\<close>

definition recorded_outcome :: "(int \<Rightarrow> task_run) \<Rightarrow> (int \<times> task) list \<Rightarrow> int \<Rightarrow> string option" where
  "recorded_outcome env extraction_tasks ts =
     (case env ts of
        WorkerRaised \<Rightarrow> None
      | Ran c \<Rightarrow>
          (if extract_single_screenshot c then
             (case map_of extraction_tasks ts of
                None \<Rightarrow> None
              | Some (timestamp_sec, output_path, idx) \<Rightarrow> Some (path_name output_path))
           else None))"

section \<open>Binding the outcomes to the events\<close>

text \<open>
  The body of the loop of \<open>_update_events_with_screenshots\<close> for one event, and the loop.
  The events are mutated in place; the model returns the events after the loop.
  \<open>if screenshot_path:\<close> is false for \<open>None\<close> and for the empty string.
\<close>

definition bind_event :: "ScreenshotConfig \<Rightarrow> (int \<times> string option) list \<Rightarrow> VideoEvent \<Rightarrow> VideoEvent" where
  "bind_event cfg screenshot_results event =
     (case timestamp_ms event of
        None \<Rightarrow> event
      | Some ts \<Rightarrow>
          (case map_of screenshot_results ts of
             None \<Rightarrow> event
           | Some None \<Rightarrow> event
           | Some (Some p) \<Rightarrow>
               (if p \<noteq> [] then event\<lparr>screenshot_path := Some (screenshot_subdir cfg @ ''/'' @ p)\<rparr>
                else event)))"

fun update_events_with_screenshots ::
  "ScreenshotConfig \<Rightarrow> VideoEvent list \<Rightarrow> (int \<times> string option) list \<Rightarrow> VideoEvent list" where
  "update_events_with_screenshots cfg [] screenshot_results = []"
| "update_events_with_screenshots cfg (event # events) screenshot_results =
     bind_event cfg screenshot_results event
       # update_events_with_screenshots cfg events screenshot_results"

section \<open>The whole extraction\<close>

text \<open>
  What \<open>extract_event_screenshots\<close> meets outside the program: whether the video path
  resolves and exists, the reports of the inspection tool, whether the screenshot
  directory can be made, the run of the capture tool for each planned timestamp, and the
  order in which the submitted tasks complete.
\<close>

record world =
  resolves :: bool
  video_exists :: bool
  probe :: probe_world
  mkdir_ok :: bool
  tool_runs :: "int \<Rightarrow> task_run"
  completion_order :: "int list \<Rightarrow> int list"

definition is_action :: "VideoEvent \<Rightarrow> bool" where
  "is_action e = (event_type e \<noteq> Some TRANSCRIPT)"

text \<open>
  \<open>action_events\<close> holds the same objects as \<open>events\<close>: after the binder has mutated
  them, each non-transcript event of \<open>events\<close> is its updated version, in order.
\<close>

fun write_back :: "VideoEvent list \<Rightarrow> VideoEvent list \<Rightarrow> VideoEvent list" where
  "write_back [] updated = []"
| "write_back (e # es) updated =
     (if is_action e then
        (case updated of
           [] \<Rightarrow> e # write_back es []
         | u # us \<Rightarrow> u # write_back es us)
      else e # write_back es updated)"

text \<open>Lines 79 to 82: an unknown duration becomes \<open>float('inf')\<close>.\<close>

definition clamping_duration :: "pyfloat option \<Rightarrow> pyfloat" where
  "clamping_duration video_duration_ms =
     (case video_duration_ms of None \<Rightarrow> PInf | Some d \<Rightarrow> d)"

definition extract_event_screenshots ::
  "ScreenshotConfig \<Rightarrow> world \<Rightarrow> VideoEvent list \<Rightarrow> string \<Rightarrow> py_error + VideoEvent list" where
  "extract_event_screenshots cfg w events session_dir =
     (if events = [] then Inr events
      else (let action_events = filter is_action events in
        if action_events = [] then Inr events
        else if \<not> resolves w then Inl ValueError
        else if \<not> video_exists w then Inr events
        else (let video_duration_ms = clamping_duration (fst (get_video_duration_ms (probe w)));
                  screenshots_dir = session_dir @ ''/'' @ screenshot_subdir cfg in
          if \<not> mkdir_ok w then Inl OSError
          else (case prepare_extraction_tasks cfg action_events video_duration_ms screenshots_dir of
                  Inl e \<Rightarrow> Inl e
                | Inr extraction_tasks \<Rightarrow>
                    (if extraction_tasks = [] then Inr events
                     else (case batch_extract_screenshots cfg (tool_runs w) (completion_order w)
                                  extraction_tasks of
                             Inl e \<Rightarrow> Inl e
                           | Inr screenshot_results \<Rightarrow>
                               Inr (write_back events
                                      (update_events_with_screenshots cfg action_events
                                         screenshot_results))))))))"


text \<open>A world for concrete runs: the probe fails, every capture succeeds.\<close>

definition calm_world :: world where
  "calm_world = \<lparr> resolves = True, video_exists = True,
     probe = \<lparr> format_run = TimeoutExpired, stream_run = RunRaised,
               frames_run = Exited 1 FramesUnreadable \<rparr>,
     mkdir_ok = True, tool_runs = (\<lambda>ts. Ran (CaptureExit 0 True)), completion_order = rev \<rparr>"

section \<open>The asset readiness gate\<close>

text \<open>
  \<open>_upload_file_with_retry\<close> of \<open>gemini_client.py\<close>. An uploaded file has a name and a
  state name. The remote service is a sequence of replies, one for each call of
  \<open>genai.upload_file\<close> or \<open>genai.get_file\<close> in the order of the calls: a file, or an
  exception. The state counts the calls made and records the calls and sleeps.
\<close>

record upload_handle =
  handle_name :: string
  state_name :: string

datatype api_reply = ApiRaises | ApiReturns upload_handle

datatype gate_event = UploadFile | GetFile | Sleep nat

record gate_state =
  api_calls :: nat
  gate_trace :: "gate_event list"

definition api_call :: "gate_event list \<Rightarrow> gate_state \<Rightarrow> gate_state" where
  "api_call done s = s\<lparr>api_calls := Suc (api_calls s), gate_trace := gate_trace s @ done\<rparr>"

definition sleep :: "nat \<Rightarrow> gate_state \<Rightarrow> gate_state" where
  "sleep seconds s = s\<lparr>gate_trace := gate_trace s @ [Sleep seconds]\<rparr>"

text \<open>
  The inner loop \<open>for _ in range(10)\<close>, with the number of iterations left: it returns
  from the function on an active file, leaves the \<open>try\<close> block when \<open>get_file\<close> raises,
  or ends with the file of the last refresh.
\<close>

datatype poll_result = FoundActive upload_handle | Exhausted upload_handle | PollRaised

fun poll ::
  "(nat \<Rightarrow> api_reply) \<Rightarrow> nat \<Rightarrow> upload_handle \<Rightarrow> gate_state \<Rightarrow> poll_result \<times> gate_state" where
  "poll remote 0 uploaded_file s = (Exhausted uploaded_file, s)"
| "poll remote (Suc remaining) uploaded_file s =
     (if state_name uploaded_file = ''ACTIVE'' then (FoundActive uploaded_file, s)
      else (case remote (api_calls s) of
              ApiRaises \<Rightarrow> (PollRaised, api_call [Sleep 1, GetFile] s)
            | ApiReturns refreshed \<Rightarrow>
                poll remote remaining refreshed (api_call [Sleep 1, GetFile] s)))"

text \<open>
  One iteration of the outer loop. The handler \<open>except Exception\<close> sleeps and goes on to
  the next attempt unless this is the last one, where it raises the exception again.
\<close>

datatype attempt_result = Returned upload_handle | TryAgain | Raised py_error

definition handle_exception ::
  "nat \<Rightarrow> int \<Rightarrow> py_error \<Rightarrow> gate_state \<Rightarrow> attempt_result \<times> gate_state" where
  "handle_exception attempt max_retries e s =
     (if int attempt < max_retries - 1 then (TryAgain, sleep 2 s) else (Raised e, s))"

definition upload_attempt ::
  "(nat \<Rightarrow> api_reply) \<Rightarrow> nat \<Rightarrow> int \<Rightarrow> gate_state \<Rightarrow> attempt_result \<times> gate_state" where
  "upload_attempt remote attempt max_retries s =
     (case remote (api_calls s) of
        ApiRaises \<Rightarrow> handle_exception attempt max_retries ApiError (api_call [UploadFile] s)
      | ApiReturns uploaded_file \<Rightarrow>
          (case poll remote 10 uploaded_file (api_call [UploadFile] s) of
             (FoundActive f, s') \<Rightarrow> (Returned f, s')
           | (PollRaised, s') \<Rightarrow> handle_exception attempt max_retries ApiError s'
           | (Exhausted f, s') \<Rightarrow>
               (if state_name f \<noteq> ''ACTIVE'' then
                  (if int attempt < max_retries - 1 then (TryAgain, sleep 2 s')
                   else handle_exception attempt max_retries NeverActive s')
                else (Returned f, s'))))"

text \<open>
  The outer loop over \<open>range(max_retries)\<close>. A loop that ends without \<open>return\<close> makes
  the function return \<open>None\<close>.
\<close>

fun attempts ::
  "(nat \<Rightarrow> api_reply) \<Rightarrow> int \<Rightarrow> nat list \<Rightarrow> gate_state
     \<Rightarrow> (py_error + upload_handle option) \<times> gate_state" where
  "attempts remote max_retries [] s = (Inr None, s)"
| "attempts remote max_retries (attempt # rest) s =
     (case upload_attempt remote attempt max_retries s of
        (Returned f, s') \<Rightarrow> (Inr (Some f), s')
      | (TryAgain, s') \<Rightarrow> attempts remote max_retries rest s'
      | (Raised e, s') \<Rightarrow> (Inl e, s'))"

definition upload_file_with_retry ::
  "(nat \<Rightarrow> api_reply) \<Rightarrow> int \<Rightarrow> (py_error + upload_handle option) \<times> gate_state" where
  "upload_file_with_retry remote max_retries =
     attempts remote max_retries [0..<nat max_retries] \<lparr>api_calls = 0, gate_trace = []\<rparr>"

text \<open>The uploads, polls and one-second sleeps of a run.\<close>

definition uploads :: "gate_state \<Rightarrow> nat" where
  "uploads s = count_list (gate_trace s) UploadFile"

definition polls :: "gate_state \<Rightarrow> nat" where
  "polls s = count_list (gate_trace s) GetFile"

definition poll_sleeps :: "gate_state \<Rightarrow> nat" where
  "poll_sleeps s = count_list (gate_trace s) (Sleep 1)"

text \<open>Two services: one never reports an active file, one does at the third poll.\<close>

definition never_active :: "nat \<Rightarrow> api_reply" where
  "never_active k = ApiReturns \<lparr>handle_name = ''files/a'', state_name = ''PROCESSING''\<rparr>"

definition active_at_third :: "nat \<Rightarrow> api_reply" where
  "active_at_third k =
     ApiReturns \<lparr>handle_name = ''files/a'',
                  state_name = (if 3 \<le> k then ''ACTIVE'' else ''PROCESSING'')\<rparr>"

text \<open>In a list of attempts, the last one and only the last one is the final attempt.\<close>

fun last_is_final :: "int \<Rightarrow> nat list \<Rightarrow> bool" where
  "last_is_final max_retries [] = True"
| "last_is_final max_retries (attempt # rest) =
     (((int attempt < max_retries - 1) = (rest \<noteq> [])) \<and> last_is_final max_retries rest)"

section \<open>Concurrent execution under the semaphore\<close>

text \<open>
  The batch as an interleaving of the steps of its tasks. A submitted task is queued; a
  thread of the pool starts it (at most \<open>max_workers\<close> tasks run at a time); it waits at
  \<open>with self._semaphore\<close>; it enters when the counter of the semaphore is positive, which
  decrements the counter; inside, it builds the command and runs the capture tool; it
  leaves with the boolean of \<open>_extract_single_screenshot\<close>, which increments the counter.
  A capture-tool invocation is in flight only while its task is inside the \<open>with\<close> block.
\<close>

datatype worker = Queued | Waiting | InFlight | Finished bool

record pool_state =
  semaphore :: nat
  workers :: "worker list"
  completed :: "nat list"

datatype pool_action = Start nat | Acquire nat | Release nat capture

definition busy :: "pool_state \<Rightarrow> nat" where
  "busy s = count_list (workers s) Waiting + count_list (workers s) InFlight"

definition in_flight :: "pool_state \<Rightarrow> nat" where
  "in_flight s = count_list (workers s) InFlight"

text \<open>One step; \<open>None\<close> when the step is not enabled in the state.\<close>

fun pool_step :: "nat \<Rightarrow> pool_state \<Rightarrow> pool_action \<Rightarrow> pool_state option" where
  "pool_step max_workers s (Start i) =
     (if i < length (workers s) \<and> workers s ! i = Queued \<and> busy s < max_workers
      then Some (s\<lparr>workers := (workers s)[i := Waiting]\<rparr>)
      else None)"
| "pool_step max_workers s (Acquire i) =
     (if i < length (workers s) \<and> workers s ! i = Waiting \<and> 0 < semaphore s
      then Some (s\<lparr>semaphore := semaphore s - 1, workers := (workers s)[i := InFlight]\<rparr>)
      else None)"
| "pool_step max_workers s (Release i c) =
     (if i < length (workers s) \<and> workers s ! i = InFlight
      then Some (s\<lparr>semaphore := semaphore s + 1,
                    workers := (workers s)[i := Finished (extract_single_screenshot c)],
                    completed := completed s @ [i]\<rparr>)
      else None)"

fun run_pool :: "nat \<Rightarrow> pool_state \<Rightarrow> pool_action list \<Rightarrow> pool_state option" where
  "run_pool max_workers s [] = Some s"
| "run_pool max_workers s (step # schedule) =
     (case pool_step max_workers s step of
        None \<Rightarrow> None
      | Some s' \<Rightarrow> run_pool max_workers s' schedule)"

text \<open>
  The extractor and its pool for \<open>n\<close> submitted tasks. \<open>threading.Semaphore\<close> raises
  \<open>ValueError\<close> on a negative value and \<open>ThreadPoolExecutor\<close> unless \<open>max_workers\<close> is
  positive: then there is no execution (\<open>None\<close>).
\<close>

definition start_pool :: "ScreenshotConfig \<Rightarrow> nat \<Rightarrow> pool_state option" where
  "start_pool cfg n =
     (if max_concurrent_extractions cfg \<le> 0 then None
      else Some \<lparr>semaphore = nat (max_concurrent_extractions cfg),
                 workers = replicate n Queued, completed = []\<rparr>)"

definition execute_plan :: "ScreenshotConfig \<Rightarrow> nat \<Rightarrow> pool_action list \<Rightarrow> pool_state option" where
  "execute_plan cfg n schedule =
     (case start_pool cfg n of
        None \<Rightarrow> None
      | Some s \<Rightarrow> run_pool (nat (max_concurrent_extractions cfg)) s schedule)"

text \<open>The tasks that have finished, and a configuration with a ceiling of 2.\<close>

definition finished_tasks :: "worker list \<Rightarrow> nat set" where
  "finished_tasks ws = {j. j < length ws \<and> (\<exists>b. ws ! j = Finished b)}"

definition two_at_a_time :: ScreenshotConfig where
  "two_at_a_time = default_config\<lparr>max_concurrent_extractions := 2\<rparr>"

section \<open>Properties of the deduplication\<close>

lemma sort_remdups_strict: "sorted_wrt (<) (sort (remdups (xs :: int list)))"
  by (simp add: strict_sorted_iff)

lemma sort_enumeration_unique:
  "distinct ys \<Longrightarrow> set ys = set xs \<Longrightarrow> sort ys = sort (remdups (xs :: int list))"
  by (metis distinct_remdups distinct_sort set_remdups set_sort sorted_distinct_set_unique
      sorted_sort)

lemma dedup_sweep_spaced:
  "acc \<noteq> [] \<Longrightarrow> spaced thr acc \<Longrightarrow> sorted_wrt (<) rest \<Longrightarrow> \<forall>r \<in> set rest. last acc < r
     \<Longrightarrow> spaced thr (dedup_sweep thr acc rest)"
proof (induction rest arbitrary: acc)
  case Nil
  then show ?case by simp
next
  case (Cons ts rest)
  have below: "\<forall>a \<in> set acc. a \<le> last acc"
  proof
    fix a assume a: "a \<in> set acc"
    from Cons.prems(2) have st: "sorted_wrt (<) acc"
      unfolding spaced_def by (rule sorted_wrt_mono_rel [rotated]) simp
    show "a \<le> last acc"
    proof (cases "a = last acc")
      case True
      then show ?thesis by simp
    next
      case False
      with a Cons.prems(1) have "a \<in> set (butlast acc)"
        by (metis append_butlast_last_id insert_iff list.set(1) list.simps(15) set_append Un_iff)
      moreover from st Cons.prems(1) have "sorted_wrt (<) (butlast acc @ [last acc])"
        by simp
      ultimately show ?thesis
        by (auto simp: sorted_wrt_append)
    qed
  qed
  from Cons.prems(3) have rest_sorted: "sorted_wrt (<) rest" and ts_lt: "\<forall>r \<in> set rest. ts < r"
    by auto
  from Cons.prems(4) have last_lt: "last acc < ts" and last_rest: "\<forall>r \<in> set rest. last acc < r"
    by auto
  show ?case
  proof (cases "ts - last acc \<ge> thr")
    case True
    have "spaced thr (acc @ [ts])"
      using Cons.prems(2) below True last_lt
      unfolding spaced_def by (fastforce simp: sorted_wrt_append)
    then have "spaced thr (dedup_sweep thr (acc @ [ts]) rest)"
      using rest_sorted ts_lt by (intro Cons.IH) auto
    with True show ?thesis by simp
  next
    case False
    have "spaced thr (dedup_sweep thr acc rest)"
      using Cons.prems(1,2) rest_sorted last_rest by (intro Cons.IH) auto
    with False show ?thesis by simp
  qed
qed

lemma deduplicate_timestamps_spaced:
  "spaced (dedup_threshold_ms cfg) (deduplicate_timestamps cfg xs)"
proof (cases "sort (remdups xs)")
  case Nil
  then show ?thesis by (simp add: deduplicate_timestamps_def spaced_def)
next
  case (Cons first rest)
  have "sorted_wrt (<) (first # rest)"
    using sort_remdups_strict [of xs] Cons by simp
  then have "spaced (dedup_threshold_ms cfg) (dedup_sweep (dedup_threshold_ms cfg) [first] rest)"
    by (intro dedup_sweep_spaced) (auto simp: spaced_def)
  with Cons show ?thesis by (simp add: deduplicate_timestamps_def spaced_def)
qed

lemma spaced_pairwise:
  "spaced thr xs \<Longrightarrow> a \<in> set xs \<Longrightarrow> b \<in> set xs \<Longrightarrow> a \<noteq> b \<Longrightarrow> thr \<le> \<bar>a - b\<bar>"
proof -
  assume sp: "spaced thr xs" and a: "a \<in> set xs" and b: "b \<in> set xs" and ne: "a \<noteq> b"
  from a obtain i where i: "i < length xs" "xs ! i = a" by (auto simp: in_set_conv_nth)
  from b obtain j where j: "j < length xs" "xs ! j = b" by (auto simp: in_set_conv_nth)
  from ne i j have "i \<noteq> j" by auto
  then consider "i < j" | "j < i" by linarith
  then show ?thesis
  proof cases
    case 1
    with sp i j have "a < b \<and> thr \<le> b - a"
      unfolding spaced_def by (auto simp: sorted_wrt_iff_nth_less)
    then show ?thesis by linarith
  next
    case 2
    with sp i j have "b < a \<and> thr \<le> a - b"
      unfolding spaced_def by (auto simp: sorted_wrt_iff_nth_less)
    then show ?thesis by linarith
  qed
qed

text \<open>
  C2. For every list of candidate timestamps and every threshold, any two distinct
  timestamps in the output of the deduplication differ by at least the threshold; the output
  is strictly ascending, with every pair of positions at least the threshold apart; and the
  candidates 1000, 1200, 1205, 5000 with the default threshold of 500 ms give exactly
  1000, 5000.
\<close>

theorem dedup_threshold_separation:
  "(\<forall>a \<in> set (deduplicate_timestamps cfg xs). \<forall>b \<in> set (deduplicate_timestamps cfg xs).
      a \<noteq> b \<longrightarrow> dedup_threshold_ms cfg \<le> \<bar>a - b\<bar>)
   \<and> spaced (dedup_threshold_ms cfg) (deduplicate_timestamps cfg xs)
   \<and> dedup_threshold_ms default_config = 500
   \<and> deduplicate_timestamps default_config [1000, 1200, 1205, 5000] = [1000, 5000]"
proof (intro conjI)
  show "\<forall>a \<in> set (deduplicate_timestamps cfg xs). \<forall>b \<in> set (deduplicate_timestamps cfg xs).
      a \<noteq> b \<longrightarrow> dedup_threshold_ms cfg \<le> \<bar>a - b\<bar>"
    using spaced_pairwise [OF deduplicate_timestamps_spaced] by blast
  show "spaced (dedup_threshold_ms cfg) (deduplicate_timestamps cfg xs)"
    by (rule deduplicate_timestamps_spaced)
  show "dedup_threshold_ms default_config = 500"
    by (simp add: default_config_def)
  show "deduplicate_timestamps default_config [1000, 1200, 1205, 5000] = [1000, 5000]"
    by (simp add: deduplicate_timestamps_def default_config_def)
qed

theorem dedup_threshold_separation_witness:
  "deduplicate_timestamps default_config [5000, 1205, 1000, 1200, 1000, 1600] = [1000, 1600, 5000]
   \<and> dedup_threshold_ms default_config \<le> \<bar>1000 - 1600\<bar>
   \<and> dedup_threshold_ms default_config \<le> \<bar>5000 - 1600\<bar>"
proof -
  have ev: "deduplicate_timestamps default_config [5000, 1205, 1000, 1200, 1000, 1600]
      = [1000, 1600, 5000]"
    by (simp add: deduplicate_timestamps_def default_config_def)
  show ?thesis
    using dedup_threshold_separation [of default_config "[5000, 1205, 1000, 1200, 1000, 1600]"]
    unfolding ev by simp
qed


section \<open>Properties of the planner\<close>


lemma update_fresh: "k \<notin> fst ` set d \<Longrightarrow> AList.update k v d = d @ [(k, v)]"
  by (induction d) auto

lemma dedup_sweep_subset: "x \<in> set (dedup_sweep thr acc rest) \<Longrightarrow> x \<in> set acc \<or> x \<in> set rest"
  by (induction rest arbitrary: acc) (fastforce split: if_splits)+

lemma deduplicate_subset: "set (deduplicate_timestamps cfg xs) \<subseteq> set xs"
proof (cases "sort (remdups xs)")
  case Nil
  then show ?thesis by (simp add: deduplicate_timestamps_def)
next
  case (Cons first rest)
  have "set (first # rest) = set xs" using Cons [symmetric] by simp
  with dedup_sweep_subset [of _ "dedup_threshold_ms cfg" "[first]" rest] Cons
  show ?thesis by (auto simp add: deduplicate_timestamps_def)
qed

lemma spaced_distinct: "spaced thr xs \<Longrightarrow> distinct xs"
proof -
  assume "spaced thr xs"
  then have "sorted_wrt (<) xs"
    unfolding spaced_def by (rule sorted_wrt_mono_rel [rotated]) simp
  then show ?thesis by (simp add: strict_sorted_iff)
qed

lemma deduplicate_cong:
  assumes "set xs = set ys"
  shows "deduplicate_timestamps cfg xs = deduplicate_timestamps cfg ys"
proof -
  have "sort (remdups xs) = sort (remdups ys)"
    using assms by (intro sorted_distinct_set_unique) simp_all
  moreover have "xs = [] \<longleftrightarrow> ys = []" using assms by auto
  ultimately show ?thesis by (simp add: deduplicate_timestamps_def)
qed

lemma setdefault_append_map_of:
  "map_of (setdefault_append t i d) =
     (map_of d)(t \<mapsto> (case map_of d t of None \<Rightarrow> [] | Some l \<Rightarrow> l) @ [i])"
  by (simp add: setdefault_append_def update_conv')

lemma update_key_set: "fst ` set (AList.update k v d) = insert k (fst ` set d)"
  by (induction d) auto

lemma setdefault_append_keys: "fst ` set (setdefault_append t i d) = insert t (fst ` set d)"
  by (simp add: setdefault_append_def update_key_set)

lemma collect_timestamps_keys:
  "fst ` set (collect_timestamps i es d) = fst ` set d \<union> set (candidates es)"
  by (induction es arbitrary: i d)
     (auto simp: candidates_def map_filter_simps setdefault_append_keys split: option.splits)

lemma collect_timestamps_first:
  "map_of (collect_timestamps i es d) ts = Some l \<Longrightarrow>
     (case map_of d ts of
        Some l0 \<Rightarrow> \<exists>r. l = l0 @ r
      | None \<Rightarrow> (\<exists>r. l = (i + first_index ts es) # r) \<and> first_index ts es < length es)"
proof (induction es arbitrary: i d)
  case Nil
  then show ?case by simp
next
  case (Cons e es)
  show ?case
  proof (cases "timestamp_ms e")
    case None
    with Cons.prems have "map_of (collect_timestamps (Suc i) es d) ts = Some l" by simp
    from Cons.IH [OF this] None show ?thesis
      by (auto simp: first_index_def split: option.splits)
  next
    case (Some t)
    with Cons.prems
    have "map_of (collect_timestamps (Suc i) es (setdefault_append t i d)) ts = Some l" by simp
    from Cons.IH [OF this] Some show ?thesis
      by (auto simp: first_index_def setdefault_append_map_of split: option.splits if_splits)
  qed
qed

lemma validate_timestamp_None: "validate_timestamp ts dur = None \<longleftrightarrow> ts < 0"
  by (simp add: validate_timestamp_def Let_def)

lemma plan_loop_closed:
  assumes "\<forall>ts \<in> set rest. \<exists>r. map_of tte ts = Some (f ts # r)"
    and "distinct rest" and "set rest \<inter> fst ` set tasks = {}"
  shows "plan_loop cfg tte dur dir rest tasks =
     Inr (tasks @ map (\<lambda>ts. (ts, the (validate_timestamp ts dur),
                              Path dir (task_filename cfg (f ts) ts), f ts))
                     (filter (\<lambda>ts. 0 \<le> ts) rest))"
  using assms
proof (induction rest arbitrary: tasks)
  case Nil
  then show ?case by simp
next
  case (Cons ts rest)
  from Cons.prems(1) obtain r where r: "map_of tte ts = Some (f ts # r)" by auto
  show ?case
  proof (cases "ts < 0")
    case True
    then have "validate_timestamp ts dur = None" by (simp add: validate_timestamp_None)
    moreover have "plan_loop cfg tte dur dir rest tasks =
      Inr (tasks @ map (\<lambda>ts. (ts, the (validate_timestamp ts dur),
                              Path dir (task_filename cfg (f ts) ts), f ts))
                     (filter (\<lambda>ts. 0 \<le> ts) rest))"
      using Cons.prems by (intro Cons.IH) auto
    ultimately show ?thesis using True by simp
  next
    case False
    then obtain sec where sec: "validate_timestamp ts dur = Some sec"
      using validate_timestamp_None [of ts dur] by (cases "validate_timestamp ts dur") auto
    let ?t = "(sec, Path dir (task_filename cfg (f ts) ts), f ts)"
    have fresh: "ts \<notin> fst ` set tasks" using Cons.prems(3) by auto
    have upd: "AList.update ts ?t tasks = tasks @ [(ts, ?t)]"
      by (rule update_fresh [OF fresh])
    have "plan_loop cfg tte dur dir rest (tasks @ [(ts, ?t)]) =
      Inr ((tasks @ [(ts, ?t)]) @ map (\<lambda>ts. (ts, the (validate_timestamp ts dur),
                              Path dir (task_filename cfg (f ts) ts), f ts))
                     (filter (\<lambda>ts. 0 \<le> ts) rest))"
      using Cons.prems by (intro Cons.IH) auto
    then show ?thesis using False sec r upd by simp
  qed
qed

lemma prepare_extraction_tasks_closed:
  "prepare_extraction_tasks cfg events dur dir =
     Inr (map (planned_task cfg events dur dir)
            (filter (\<lambda>ts. 0 \<le> ts) (deduplicate_timestamps cfg (candidates events))))"
proof -
  let ?tte = "collect_timestamps 0 events []"
  let ?u = "deduplicate_timestamps cfg (map fst ?tte)"
  have keys: "set (map fst ?tte) = set (candidates events)"
    using collect_timestamps_keys [of 0 events "[]"] by simp
  have u: "?u = deduplicate_timestamps cfg (candidates events)"
    by (rule deduplicate_cong [OF keys])
  have "\<forall>ts \<in> set ?u. \<exists>r. map_of ?tte ts = Some (first_index ts events # r)"
  proof
    fix ts assume "ts \<in> set ?u"
    then have "ts \<in> fst ` set ?tte" using deduplicate_subset [of cfg "map fst ?tte"] by auto
    then obtain l where l: "map_of ?tte ts = Some l"
      by (cases "map_of ?tte ts") (auto simp: map_of_eq_None_iff)
    from collect_timestamps_first [OF l] l
    show "\<exists>r. map_of ?tte ts = Some (first_index ts events # r)" by auto
  qed
  moreover have "distinct ?u"
    by (rule spaced_distinct [OF deduplicate_timestamps_spaced])
  ultimately have "plan_loop cfg ?tte dur dir ?u [] =
     Inr ([] @ map (\<lambda>ts. (ts, the (validate_timestamp ts dur),
                Path dir (task_filename cfg (first_index ts events) ts), first_index ts events))
             (filter (\<lambda>ts. 0 \<le> ts) ?u))"
    by (intro plan_loop_closed) auto
  then show ?thesis
    unfolding prepare_extraction_tasks_def Let_def u planned_task_def by simp
qed

lemma candidates_set: "set (candidates events) = {ts. \<exists>e \<in> set events. timestamp_ms e = Some ts}"
  unfolding candidates_def
  by (induction events) (auto simp: map_filter_simps split: option.splits)

lemma first_index_props:
  assumes "ts \<in> set (candidates events)"
  shows "first_index ts events < length events"
    and "timestamp_ms (events ! first_index ts events) = Some ts"
    and "\<forall>j < first_index ts events. timestamp_ms (events ! j) \<noteq> Some ts"
proof -
  let ?P = "\<lambda>e. timestamp_ms e \<noteq> Some ts"
  from assms obtain e where e: "e \<in> set events" "\<not> ?P e"
    by (auto simp: candidates_set)
  have "takeWhile ?P events \<noteq> events"
    using e by (simp add: takeWhile_eq_all_conv del: not_Some_eq) blast
  moreover have "takeWhile ?P events = take (length (takeWhile ?P events)) events"
    by (rule takeWhile_eq_take)
  ultimately have "length (takeWhile ?P events) \<noteq> length events"
    by (metis take_all order_refl)
  with length_takeWhile_le [of ?P events]
  show lt: "first_index ts events < length events"
    by (simp add: first_index_def)
  from nth_length_takeWhile [of ?P events] lt
  show "timestamp_ms (events ! first_index ts events) = Some ts"
    by (simp add: first_index_def)
  show "\<forall>j < first_index ts events. timestamp_ms (events ! j) \<noteq> Some ts"
  proof (intro allI impI)
    fix j assume j: "j < first_index ts events"
    then have "takeWhile ?P events ! j \<in> set (takeWhile ?P events)"
      by (simp add: first_index_def)
    then have "?P (takeWhile ?P events ! j)" by (rule set_takeWhileD [THEN conjunct2])
    moreover have "takeWhile ?P events ! j = events ! j"
      using j by (simp add: first_index_def takeWhile_nth)
    ultimately show "timestamp_ms (events ! j) \<noteq> Some ts" by simp
  qed
qed

lemma validate_timestamp_finite:
  "0 \<le> ts \<Longrightarrow> validate_timestamp ts (Fin D) = Some (Fin (max 0 (min (of_int ts) (D - 100)) / 1000))"
  by (auto simp: validate_timestamp_def Let_def py_max_def py_min_def)

lemma validate_timestamp_unbounded:
  "0 \<le> ts \<Longrightarrow> validate_timestamp ts PInf = Some (Fin (of_int ts / 1000))"
  by (auto simp: validate_timestamp_def Let_def py_max_def py_min_def)



lemma first_index_map:
  "map timestamp_ms events' = map timestamp_ms events \<Longrightarrow> first_index ts events' = first_index ts events"
  for events events' :: "VideoEvent list"
proof -
  assume eq: "map timestamp_ms events' = map timestamp_ms events"
  have "\<And>es. first_index ts es = length (takeWhile (\<lambda>t. t \<noteq> Some ts) (map timestamp_ms es))"
    by (simp add: first_index_def takeWhile_map comp_def)
  with eq show ?thesis by simp
qed

lemma candidates_map:
  "map timestamp_ms events' = map timestamp_ms events \<Longrightarrow> candidates events' = candidates events"
  for events events' :: "VideoEvent list"
proof -
  assume eq: "map timestamp_ms events' = map timestamp_ms events"
  have "candidates es = List.map_filter id (map timestamp_ms es)" for es
    unfolding candidates_def
    by (induction es) (auto simp: map_filter_simps split: option.splits)
  with eq show ?thesis by simp
qed

lemma planned_keys:
  "map fst (map (planned_task cfg events dur dir) xs) = xs"
  by (induction xs) (auto simp: planned_task_def)


lemma replicate_eval: "replicate 3 c = [c, c, c]" "replicate 2 c = [c, c]" "replicate 1 c = [c]"
  by (simp_all add: eval_nat_numeral)

lemmas fmt_eval = task_filename_def format_03d_def str_int_def str_nat.simps digit_char_def
  replicate_eval



text \<open>Two concrete plans, evaluated.\<close>

lemma plan_short_video:
  "prepare_extraction_tasks default_config [event_at 1000] (Fin 50) ''shots''
     = Inr [(1000, Fin 0, Path ''shots'' ''event_001_1000ms.jpg'', 0)]"
proof -
  have c: "candidates [event_at 1000] = [1000]"
    by (simp add: candidates_def map_filter_simps event_at_def)
  have d: "deduplicate_timestamps default_config [1000] = [1000]"
    by (simp add: deduplicate_timestamps_def default_config_def)
  have f: "first_index 1000 [event_at 1000] = 0"
    by (simp add: first_index_def event_at_def)
  have n: "task_filename default_config 0 1000 = ''event_001_1000ms.jpg''"
    by (simp add: fmt_eval default_config_def)
  have v: "validate_timestamp 1000 (Fin 50) = Some (Fin 0)"
    by (simp add: validate_timestamp_finite)
  show ?thesis
    unfolding prepare_extraction_tasks_closed c d by (simp add: planned_task_def f n v)
qed

lemma plan_three_events:
  "prepare_extraction_tasks default_config
      [event_at 1200, event_at 5000, event_at 1000, event_at 1000, event_at (-3)] (Fin 3000) ''shots''
     = Inr [(1000, Fin 1, Path ''shots'' ''event_003_1000ms.jpg'', 2),
            (5000, Fin (29 / 10), Path ''shots'' ''event_002_5000ms.jpg'', 1)]"
proof -
  let ?es = "[event_at 1200, event_at 5000, event_at 1000, event_at 1000, event_at (-3)]"
  have c: "candidates ?es = [1200, 5000, 1000, 1000, -3]"
    by (simp add: candidates_def map_filter_simps event_at_def)
  have d: "deduplicate_timestamps default_config [1200, 5000, 1000, 1000, -3] = [-3, 1000, 5000]"
    by (simp add: deduplicate_timestamps_def default_config_def)
  have f: "first_index 1000 ?es = 2" "first_index 5000 ?es = 1"
    by (simp_all add: first_index_def event_at_def)
  have n: "task_filename default_config 2 1000 = ''event_003_1000ms.jpg''"
    "task_filename default_config (Suc 0) 5000 = ''event_002_5000ms.jpg''"
    by (simp_all add: fmt_eval default_config_def)
  have v: "validate_timestamp 1000 (Fin 3000) = Some (Fin 1)"
    "validate_timestamp 5000 (Fin 3000) = Some (Fin (29 / 10))"
    by (simp_all add: validate_timestamp_finite)
  show ?thesis
    unfolding prepare_extraction_tasks_closed c d by (simp add: planned_task_def f n v)
qed

text \<open>
  C1 (as amended). For every list of events and every known finite duration \<open>D\<close> (ms), the
  planner returns a plan without error; the plan has one task for each non-negative
  deduplicated timestamp, so a timestamp is dropped only when it is negative and never
  because of \<open>D\<close>. The clamped value of a task is \<open>max(0, min(ts, D - 100))\<close>, stored
  in seconds; it is never negative; it lies in \<open>[0, D - 100]\<close> when \<open>D \<ge> 100\<close>; and
  when \<open>D < 100\<close> it is 0 and the task is still created.
\<close>

theorem planner_clamps_without_dropping:
  "\<exists>tasks. prepare_extraction_tasks cfg events (Fin D) dir = Inr tasks
     \<and> map fst tasks = filter (\<lambda>ts. 0 \<le> ts) (deduplicate_timestamps cfg (candidates events))
     \<and> (\<forall>(ts, sec, p, idx) \<in> set tasks.
          0 \<le> ts
          \<and> sec = Fin (max 0 (min (of_int ts) (D - 100)) / 1000)
          \<and> 0 \<le> max 0 (min (of_int ts) (D - 100))
          \<and> (100 \<le> D \<longrightarrow> max 0 (min (of_int ts) (D - 100)) \<le> D - 100)
          \<and> (D < 100 \<longrightarrow> sec = Fin 0))"
proof -
  let ?keep = "filter (\<lambda>ts. 0 \<le> ts) (deduplicate_timestamps cfg (candidates events))"
  let ?tasks = "map (planned_task cfg events (Fin D) dir) ?keep"
  have "\<forall>(ts, sec, p, idx) \<in> set ?tasks.
          0 \<le> ts
          \<and> sec = Fin (max 0 (min (of_int ts) (D - 100)) / 1000)
          \<and> 0 \<le> max 0 (min (of_int ts) (D - 100))
          \<and> (100 \<le> D \<longrightarrow> max 0 (min (of_int ts) (D - 100)) \<le> D - 100)
          \<and> (D < 100 \<longrightarrow> sec = Fin 0)"
    by (auto simp: planned_task_def validate_timestamp_finite)
  then show ?thesis
    using prepare_extraction_tasks_closed [of cfg events "Fin D" dir] planned_keys
    by (intro exI [of _ ?tasks]) simp
qed

text \<open>
  The claim as stated fails for a duration below 100 ms: with \<open>D = 50\<close> the timestamp
  1000 is not dropped, a task is created for it, and its clamped value 0 is outside
  \<open>[0, D - 100]\<close>, which is empty.
\<close>

theorem planner_short_video_counterexample:
  "prepare_extraction_tasks default_config [event_at 1000] (Fin 50) ''shots''
     = Inr [(1000, Fin 0, Path ''shots'' ''event_001_1000ms.jpg'', 0)]
   \<and> (50 :: rat) \<le> 100
   \<and> \<not> (0 :: rat) \<le> 50 - 100"
  using plan_short_video by simp

theorem planner_clamps_without_dropping_witness:
  "prepare_extraction_tasks default_config
      [event_at 1200, event_at 5000, event_at 1000, event_at 1000, event_at (-3)] (Fin 3000) ''shots''
     = Inr [(1000, Fin 1, Path ''shots'' ''event_003_1000ms.jpg'', 2),
            (5000, Fin (29 / 10), Path ''shots'' ''event_002_5000ms.jpg'', 1)]
   \<and> max 0 (min (of_int 5000) (3000 - 100)) \<le> (3000 - 100 :: rat)"
  using planner_clamps_without_dropping [of default_config
       "[event_at 1200, event_at 5000, event_at 1000, event_at 1000, event_at (-3)]" 3000 "''shots''"]
  unfolding plan_three_events by simp

text \<open>
  C8. The plan is a function of the configuration, the timestamps of the events (in their
  order), the duration and the output directory alone: two lists of events with the same
  timestamps give the identical plan, and so does a second run on the same list. The
  planner never fails. The keys of the plan are strictly ascending. Each task's file is
  \<open>event_<idx+1, three digits>_<ts>ms.<format>\<close> in the output directory, where \<open>ts\<close> is
  the original timestamp (the key, not the clamped value) and \<open>idx\<close> is the index of the
  first event with that timestamp. An empty list of events, and a list whose timestamps are
  all dropped, give the empty plan.
\<close>

theorem planner_deterministic_ordered_named:
  "\<exists>plan. prepare_extraction_tasks cfg events dur dir = Inr plan
     \<and> (\<forall>events' :: VideoEvent list. map timestamp_ms events' = map timestamp_ms events
            \<longrightarrow> prepare_extraction_tasks cfg events' dur dir = Inr plan)
     \<and> sorted_wrt (<) (map fst plan)
     \<and> (\<forall>(ts, sec, p, idx) \<in> set plan.
          p = Path dir (''event_'' @ format_03d (idx + 1) @ ''_'' @ str_int ts @ ''ms.''
                          @ image_format cfg)
          \<and> idx < length events
          \<and> timestamp_ms (events ! idx) = Some ts
          \<and> (\<forall>j < idx. timestamp_ms (events ! j) \<noteq> Some ts))
     \<and> (events = [] \<longrightarrow> plan = [])
     \<and> ((\<forall>e \<in> set events. \<forall>ts. timestamp_ms e = Some ts \<longrightarrow> ts < 0) \<longrightarrow> plan = [])"
proof -
  let ?dd = "deduplicate_timestamps cfg (candidates events)"
  let ?keep = "filter (\<lambda>ts. 0 \<le> ts) ?dd"
  let ?plan = "map (planned_task cfg events dur dir) ?keep"
  have closed: "prepare_extraction_tasks cfg events dur dir = Inr ?plan"
    by (rule prepare_extraction_tasks_closed)
  have same: "\<forall>events' :: VideoEvent list. map timestamp_ms events' = map timestamp_ms events
            \<longrightarrow> prepare_extraction_tasks cfg events' dur dir = Inr ?plan"
  proof (intro allI impI)
    fix events' :: "VideoEvent list" assume eq: "map timestamp_ms events' = map timestamp_ms events"
    have "planned_task cfg events' dur dir = planned_task cfg events dur dir"
      by (rule ext) (simp add: planned_task_def first_index_map [OF eq])
    then show "prepare_extraction_tasks cfg events' dur dir = Inr ?plan"
      by (simp add: prepare_extraction_tasks_closed candidates_map [OF eq])
  qed
  have "sorted_wrt (<) ?dd"
    using deduplicate_timestamps_spaced [of cfg "candidates events"]
    unfolding spaced_def by (rule sorted_wrt_mono_rel [rotated]) simp
  then have "sorted_wrt (<) ?keep"
    by (rule sorted_wrt_filter)
  then have asc: "sorted_wrt (<) (map fst ?plan)"
    by (simp only: planned_keys)
  have named: "\<forall>(ts, sec, p, idx) \<in> set ?plan.
          p = Path dir (''event_'' @ format_03d (idx + 1) @ ''_'' @ str_int ts @ ''ms.''
                          @ image_format cfg)
          \<and> idx < length events
          \<and> timestamp_ms (events ! idx) = Some ts
          \<and> (\<forall>j < idx. timestamp_ms (events ! j) \<noteq> Some ts)"
  proof -
    have "\<And>ts. ts \<in> set ?keep \<Longrightarrow> ts \<in> set (candidates events)"
      using deduplicate_subset [of cfg "candidates events"] by auto
    then show ?thesis
      using first_index_props by (auto simp: planned_task_def task_filename_def)
  qed
  have empty: "events = [] \<longrightarrow> ?plan = []"
    by (simp add: candidates_def map_filter_simps deduplicate_timestamps_def)
  have dropped: "(\<forall>e \<in> set events. \<forall>ts. timestamp_ms e = Some ts \<longrightarrow> ts < 0) \<longrightarrow> ?plan = []"
  proof
    assume neg: "\<forall>e \<in> set events. \<forall>ts. timestamp_ms e = Some ts \<longrightarrow> ts < 0"
    have "\<forall>ts \<in> set ?dd. ts < 0"
      using deduplicate_subset [of cfg "candidates events"] neg by (auto simp: candidates_set)
    then have "?keep = []" by (auto simp: filter_empty_conv)
    then show "?plan = []" by simp
  qed
  show ?thesis
    using closed same asc named empty dropped by (intro exI [of _ ?plan]) blast
qed


theorem planner_deterministic_ordered_named_witness:
  "prepare_extraction_tasks default_config
      [event_at 1200, event_at 5000, event_at 1000, event_at 1000, event_at (-3)] (Fin 3000) ''shots''
     = Inr [(1000, Fin 1, Path ''shots'' ''event_003_1000ms.jpg'', 2),
            (5000, Fin (29 / 10), Path ''shots'' ''event_002_5000ms.jpg'', 1)]
   \<and> sorted_wrt (<) [1000, 5000 :: int]
   \<and> timestamp_ms ([event_at 1200, event_at 5000, event_at 1000, event_at 1000, event_at (-3)] ! 2)
       = Some 1000"
  using planner_deterministic_ordered_named [of default_config
       "[event_at 1200, event_at 5000, event_at 1000, event_at 1000, event_at (-3)]" "Fin 3000" "''shots''"]
  unfolding plan_three_events by (simp add: event_at_def)

section \<open>Properties of the duration probe\<close>

text \<open>
  C3 (as amended). The probe runs its three methods (container metadata, video-stream
  metadata, frame count divided by frame rate) in this fixed order, each at most once, and
  returns the result of the first method that yields a number, times 1000, whether or not
  this number is finite and positive: no method's result is checked for its sign or for
  being finite. A method that times out, raises, exits with a non-zero code or yields an
  absent, \<open>"N/A"\<close> or non-numeric value is skipped and never run again. If all three fail
  the probe returns \<open>None\<close>, having run each of them once.
\<close>

theorem probe_first_parsed:
  "fst (get_video_duration_ms w) =
     (case method_outcome 0 w of
        Some v \<Rightarrow> Some v
      | None \<Rightarrow> (case method_outcome 1 w of Some v \<Rightarrow> Some v | None \<Rightarrow> method_outcome 2 w))
   \<and> snd (get_video_duration_ms w) =
     (case method_outcome 0 w of
        Some v \<Rightarrow> [0]
      | None \<Rightarrow> (case method_outcome 1 w of Some v \<Rightarrow> [0, 1] | None \<Rightarrow> [0, 1, 2]))
   \<and> (format_run w = Exited 0 (FormatDuration (Numeric v0))
        \<longrightarrow> method_outcome 0 w = Some (pf_mul_const v0 1000))
   \<and> (stream_run w = Exited 0 (StreamDuration (Numeric v1))
        \<longrightarrow> method_outcome 1 w = Some (pf_mul_const v1 1000))
   \<and> (frames_run w = Exited 0 (Frames (Count n) (Ratio (Some (Fin num)) (Some (Fin den))))
        \<longrightarrow> den \<noteq> 0 \<longrightarrow> num \<noteq> 0
        \<longrightarrow> method_outcome 2 w = Some (Fin (of_int n / (num / den) * 1000)))
   \<and> (format_run w \<in> {TimeoutExpired, RunRaised}
        \<or> (\<exists>rc r. format_run w = Exited rc r
              \<and> (rc \<noteq> 0 \<or> r \<in> {FormatUnreadable, FormatDuration NoValue,
                     FormatDuration NotAvailable, FormatDuration NotNumeric}))
        \<longrightarrow> method_outcome 0 w = None)
   \<and> (stream_run w \<in> {TimeoutExpired, RunRaised}
        \<or> (\<exists>rc r. stream_run w = Exited rc r
              \<and> (rc \<noteq> 0 \<or> r \<in> {StreamUnreadable, NoStreams, StreamDuration NoValue,
                     StreamDuration NotAvailable, StreamDuration NotNumeric}))
        \<longrightarrow> method_outcome 1 w = None)
   \<and> (frames_run w \<in> {TimeoutExpired, RunRaised}
        \<or> (\<exists>rc r. frames_run w = Exited rc r
              \<and> (rc \<noteq> 0 \<or> r \<in> {FramesUnreadable, NoFrameStreams}
                   \<or> (\<exists>c. r = Frames c NoRate \<or> r = Frames c RateUnusable)
                   \<or> (\<exists>x. r = Frames NoCount x \<or> r = Frames CountNotInt x)))
        \<longrightarrow> method_outcome 2 w = None)
   \<and> (method_outcome 0 w = None \<and> method_outcome 1 w = None \<and> method_outcome 2 w = None
        \<longrightarrow> get_video_duration_ms w = (None, [0, 1, 2]))"
proof (intro conjI)
  show "fst (get_video_duration_ms w) =
     (case method_outcome 0 w of
        Some v \<Rightarrow> Some v
      | None \<Rightarrow> (case method_outcome 1 w of Some v \<Rightarrow> Some v | None \<Rightarrow> method_outcome 2 w))"
    by (simp add: get_video_duration_ms_def split: option.splits)
  show "snd (get_video_duration_ms w) =
     (case method_outcome 0 w of
        Some v \<Rightarrow> [0]
      | None \<Rightarrow> (case method_outcome 1 w of Some v \<Rightarrow> [0, 1] | None \<Rightarrow> [0, 1, 2]))"
    by (simp add: get_video_duration_ms_def split: option.splits)
  show "format_run w = Exited 0 (FormatDuration (Numeric v0))
        \<longrightarrow> method_outcome 0 w = Some (pf_mul_const v0 1000)"
    by (simp add: method_outcome_def read_duration_def)
  show "stream_run w = Exited 0 (StreamDuration (Numeric v1))
        \<longrightarrow> method_outcome 1 w = Some (pf_mul_const v1 1000)"
    by (simp add: method_outcome_def read_duration_def)
  show "frames_run w = Exited 0 (Frames (Count n) (Ratio (Some (Fin num)) (Some (Fin den))))
        \<longrightarrow> den \<noteq> 0 \<longrightarrow> num \<noteq> 0
        \<longrightarrow> method_outcome 2 w = Some (Fin (of_int n / (num / den) * 1000))"
    by (simp add: method_outcome_def count_frames_duration_def frame_rate_fps_def)
  show "format_run w \<in> {TimeoutExpired, RunRaised}
        \<or> (\<exists>rc r. format_run w = Exited rc r
              \<and> (rc \<noteq> 0 \<or> r \<in> {FormatUnreadable, FormatDuration NoValue,
                     FormatDuration NotAvailable, FormatDuration NotNumeric}))
        \<longrightarrow> method_outcome 0 w = None"
    by (auto simp: method_outcome_def read_duration_def)
  show "stream_run w \<in> {TimeoutExpired, RunRaised}
        \<or> (\<exists>rc r. stream_run w = Exited rc r
              \<and> (rc \<noteq> 0 \<or> r \<in> {StreamUnreadable, NoStreams, StreamDuration NoValue,
                     StreamDuration NotAvailable, StreamDuration NotNumeric}))
        \<longrightarrow> method_outcome 1 w = None"
    by (auto simp: method_outcome_def read_duration_def)
  show "frames_run w \<in> {TimeoutExpired, RunRaised}
        \<or> (\<exists>rc r. frames_run w = Exited rc r
              \<and> (rc \<noteq> 0 \<or> r \<in> {FramesUnreadable, NoFrameStreams}
                   \<or> (\<exists>c. r = Frames c NoRate \<or> r = Frames c RateUnusable)
                   \<or> (\<exists>x. r = Frames NoCount x \<or> r = Frames CountNotInt x)))
        \<longrightarrow> method_outcome 2 w = None"
    by (auto simp: method_outcome_def count_frames_duration_def frame_rate_fps_def
        split: option.splits)
  show "method_outcome 0 w = None \<and> method_outcome 1 w = None \<and> method_outcome 2 w = None
        \<longrightarrow> get_video_duration_ms w = (None, [0, 1, 2])"
    by (simp add: get_video_duration_ms_def)
qed

text \<open>
  The claim as stated fails: the first method reports a duration of \<open>"0.000000"\<close> and
  the second one \<open>"10.0"\<close>. The probe returns 0 ms from the first method, which is not
  positive, although the second method would give the finite positive 10000 ms.
\<close>

theorem probe_zero_duration_counterexample:
  "get_video_duration_ms zero_then_ten = (Some (Fin 0), [0])
   \<and> \<not> finite_positive (Fin 0)
   \<and> method_outcome 1 zero_then_ten = Some (Fin 10000)
   \<and> finite_positive (Fin 10000)"
  by (simp add: get_video_duration_ms_def method_outcome_def read_duration_def zero_then_ten_def
      finite_positive_def)

theorem probe_first_parsed_witness:
  "format_run na_then_frames = Exited 0 (FormatDuration NotAvailable)
   \<and> stream_run na_then_frames = Exited 1 NoStreams
   \<and> frames_run na_then_frames
       = Exited 0 (Frames (Count 300) (Ratio (Some (Fin 30)) (Some (Fin 1))))
   \<and> get_video_duration_ms na_then_frames = (Some (Fin 10000), [0, 1, 2])
   \<and> method_outcome 0 na_then_frames = None
   \<and> method_outcome 1 na_then_frames = None
   \<and> method_outcome 2 na_then_frames = Some (Fin 10000)"
proof -
  have r: "format_run na_then_frames = Exited 0 (FormatDuration NotAvailable)"
    "stream_run na_then_frames = Exited 1 NoStreams"
    "frames_run na_then_frames
       = Exited 0 (Frames (Count 300) (Ratio (Some (Fin 30)) (Some (Fin 1))))"
    by (simp_all add: na_then_frames_def)
  note main = probe_first_parsed [where w = na_then_frames and n = 300 and num = 30 and den = 1]
  have m0: "method_outcome 0 na_then_frames = None" using main r by blast
  have m1: "method_outcome 1 na_then_frames = None" using main r by blast
  have m2: "method_outcome 2 na_then_frames = Some (Fin 10000)" using main r by simp
  have "fst (get_video_duration_ms na_then_frames) = Some (Fin 10000)"
    "snd (get_video_duration_ms na_then_frames) = [0, 1, 2]"
    using main m0 m1 m2 by simp_all
  then have "get_video_duration_ms na_then_frames = (Some (Fin 10000), [0, 1, 2])"
    by (simp add: prod_eq_iff)
  with r m0 m1 m2 show ?thesis by simp
qed

section \<open>Properties of the executor\<close>

lemma collect_results_map_of:
  "map_of (collect_results env tasks order results) ts =
     (if ts \<in> set order then Some (recorded_outcome env tasks ts) else map_of results ts)"
  by (induction order arbitrary: results)
     (auto simp: update_conv' recorded_outcome_def split: task_run.splits option.splits)

lemma collect_results_keys:
  "fst ` set (collect_results env tasks order results) = fst ` set results \<union> set order"
  by (induction order arbitrary: results)
     (auto simp: update_key_set split: task_run.splits option.splits)

lemma collect_results_distinct:
  "distinct (map fst results) \<Longrightarrow> distinct (map fst (collect_results env tasks order results))"
  by (induction order arbitrary: results)
     (auto simp: distinct_update split: task_run.splits option.splits)

text \<open>
  C4. For an extractor whose concurrency ceiling is positive (the thread pool cannot be
  made otherwise) and a plan whose submitted tasks all complete, in any order, the executor
  returns an outcome map and raises nothing. The keys of the map are exactly the timestamps
  of the plan, each once. The entry of a task is the name of its output file when the tool
  exits with code 0 and the file exists, and \<open>None\<close> when the tool times out, raises,
  exits with another code, leaves no file, or an exception escapes the worker; it depends
  on the run of that task alone.
\<close>

theorem executor_records_every_task:
  assumes "0 < max_concurrent_extractions cfg"
    and "distinct (map fst tasks)"
    and "set (completion (map fst tasks)) = set (map fst tasks)"
  shows "\<exists>results. batch_extract_screenshots cfg env completion tasks = Inr results
     \<and> set (map fst results) = set (map fst tasks)
     \<and> distinct (map fst results)
     \<and> (\<forall>(ts, sec, p, idx) \<in> set tasks.
          map_of results ts =
            Some (case env ts of
                    WorkerRaised \<Rightarrow> None
                  | Ran CaptureTimeout \<Rightarrow> None
                  | Ran CaptureRaised \<Rightarrow> None
                  | Ran (CaptureExit returncode output_exists) \<Rightarrow>
                      (if returncode = 0 \<and> output_exists then Some (path_name p) else None)))"
proof -
  let ?order = "completion (map fst tasks)"
  let ?results = "collect_results env tasks ?order []"
  have same: "set ?order = set (map fst tasks)"
    by (rule assms(3))
  have run: "batch_extract_screenshots cfg env completion tasks = Inr ?results"
    using assms(1) by (simp add: batch_extract_screenshots_def)
  have keys: "set (map fst ?results) = set (map fst tasks)"
    using collect_results_keys [of env tasks ?order "[]"] same by simp
  have dist: "distinct (map fst ?results)"
    by (rule collect_results_distinct) simp
  have entries: "\<forall>(ts, sec, p, idx) \<in> set tasks.
          map_of ?results ts =
            Some (case env ts of
                    WorkerRaised \<Rightarrow> None
                  | Ran CaptureTimeout \<Rightarrow> None
                  | Ran CaptureRaised \<Rightarrow> None
                  | Ran (CaptureExit returncode output_exists) \<Rightarrow>
                      (if returncode = 0 \<and> output_exists then Some (path_name p) else None))"
  proof (clarify)
    fix ts sec p idx assume t: "(ts, sec, p, idx) \<in> set tasks"
    then have "ts \<in> set ?order" using same by force
    moreover have "map_of tasks ts = Some (sec, p, idx)"
      using t assms(2) by simp
    ultimately show "map_of ?results ts =
            Some (case env ts of
                    WorkerRaised \<Rightarrow> None
                  | Ran CaptureTimeout \<Rightarrow> None
                  | Ran CaptureRaised \<Rightarrow> None
                  | Ran (CaptureExit returncode output_exists) \<Rightarrow>
                      (if returncode = 0 \<and> output_exists then Some (path_name p) else None))"
      by (simp add: collect_results_map_of recorded_outcome_def extract_single_screenshot_def
          split: task_run.splits capture.splits)
  qed
  from run keys dist entries show ?thesis by blast
qed

theorem executor_records_every_task_witness:
  "0 < max_concurrent_extractions default_config
   \<and> distinct (map fst [(1000 :: int, Fin 1, Path ''shots'' ''a.jpg'', 0 :: nat),
                        (5000, Fin 5, Path ''shots'' ''b.jpg'', 1)])
   \<and> set (rev [1000, 5000 :: int]) = set [1000, 5000]
   \<and> batch_extract_screenshots default_config
        (\<lambda>ts. if ts = 1000 then Ran (CaptureExit 0 True) else Ran CaptureTimeout) rev
        [(1000, Fin 1, Path ''shots'' ''a.jpg'', 0), (5000, Fin 5, Path ''shots'' ''b.jpg'', 1)]
       = Inr [(5000, None), (1000, Some ''a.jpg'')]"
proof -
  let ?tasks = "[(1000 :: int, Fin 1, Path ''shots'' ''a.jpg'', 0 :: nat),
                 (5000, Fin 5, Path ''shots'' ''b.jpg'', 1)]"
  have h: "0 < max_concurrent_extractions default_config" "distinct (map fst ?tasks)"
    "set (rev (map fst ?tasks)) = set (map fst ?tasks)"
    by (simp_all add: default_config_def insert_commute)
  have ev: "batch_extract_screenshots default_config
        (\<lambda>ts. if ts = 1000 then Ran (CaptureExit 0 True) else Ran CaptureTimeout) rev ?tasks
       = Inr [(5000, None), (1000, Some ''a.jpg'')]"
    by (simp add: batch_extract_screenshots_def default_config_def extract_single_screenshot_def)
  from executor_records_every_task [where cfg = default_config and tasks = ?tasks
      and completion = rev
      and env = "\<lambda>ts. if ts = 1000 then Ran (CaptureExit 0 True) else Ran CaptureTimeout"] h ev
  show ?thesis by simp
qed

section \<open>Properties of the binder\<close>

lemma update_events_map:
  "update_events_with_screenshots cfg events results = map (bind_event cfg results) events"
  by (induction events) simp_all

text \<open>
  C7. For every list of events and every outcome map, the binder returns the events in the
  same number and order. An event whose timestamp is a key of the map with a successful
  outcome (a non-empty artifact name) has its screenshot reference set to the name under
  the screenshot subdirectory. An event without a timestamp, or whose timestamp is not a
  key, or whose outcome failed (\<open>None\<close>, or an empty name), is returned as it was. In
  every case all fields other than the screenshot reference are those of the input event.
\<close>

theorem binder_sets_successful_only:
  "length (update_events_with_screenshots cfg events results) = length events
   \<and> (\<forall>i < length events.
        (\<forall>ts p. timestamp_ms (events ! i) = Some ts \<and> map_of results ts = Some (Some p) \<and> p \<noteq> []
           \<longrightarrow> screenshot_path (update_events_with_screenshots cfg events results ! i)
                 = Some (screenshot_subdir cfg @ ''/'' @ p))
      \<and> (timestamp_ms (events ! i) = None
           \<or> (\<exists>ts. timestamp_ms (events ! i) = Some ts
                 \<and> (map_of results ts = None \<or> map_of results ts = Some None
                      \<or> map_of results ts = Some (Some [])))
           \<longrightarrow> update_events_with_screenshots cfg events results ! i = events ! i)
      \<and> (update_events_with_screenshots cfg events results ! i)
            \<lparr>screenshot_path := screenshot_path (events ! i)\<rparr> = events ! i)"
  by (auto simp: update_events_map bind_event_def split: option.splits)

theorem binder_sets_successful_only_witness:
  "update_events_with_screenshots default_config
      [event_at 1000, event_at 1200, event_at 2000]
      [(1000, Some ''event_001_1000ms.jpg''), (2000, None)]
     = [(event_at 1000)\<lparr>screenshot_path := Some ''screenshots/event_001_1000ms.jpg''\<rparr>,
        event_at 1200, event_at 2000]
   \<and> timestamp_ms ([event_at 1000, event_at 1200, event_at 2000] ! 0) = Some 1000
   \<and> map_of [(1000, Some ''event_001_1000ms.jpg''), (2000, None)] (1000 :: int)
       = Some (Some ''event_001_1000ms.jpg'')
   \<and> map_of [(1000, Some ''event_001_1000ms.jpg''), (2000, None)] (1200 :: int) = None
   \<and> map_of [(1000, Some ''event_001_1000ms.jpg''), (2000, None)] (2000 :: int) = Some None"
proof -
  have ev: "update_events_with_screenshots default_config
      [event_at 1000, event_at 1200, event_at 2000]
      [(1000, Some ''event_001_1000ms.jpg''), (2000, None)]
     = [(event_at 1000)\<lparr>screenshot_path := Some ''screenshots/event_001_1000ms.jpg''\<rparr>,
        event_at 1200, event_at 2000]"
    by (simp add: bind_event_def event_at_def default_config_def)
  from binder_sets_successful_only [of default_config
      "[event_at 1000, event_at 1200, event_at 2000]"
      "[(1000, Some ''event_001_1000ms.jpg''), (2000, None)]"] ev
  show ?thesis by (simp add: event_at_def)
qed

section \<open>Properties of the whole extraction\<close>

lemma write_back_map:
  "write_back events (map f (filter is_action events)) =
     map (\<lambda>e. if is_action e then f e else e) events"
  by (induction events) simp_all

lemma prepared_keys_kept:
  "prepare_extraction_tasks cfg events dur dir = Inr tasks \<Longrightarrow>
     fst ` set tasks \<subseteq> set (deduplicate_timestamps cfg (candidates events))"
  unfolding prepare_extraction_tasks_closed by (auto simp: planned_task_def)

lemma batch_success_in_plan:
  assumes "batch_extract_screenshots cfg env completion tasks = Inr results"
    and "map_of results ts = Some (Some p)"
  shows "ts \<in> fst ` set tasks"
proof -
  from assms(1) have r: "results = collect_results env tasks (completion (map fst tasks)) []"
    by (simp add: batch_extract_screenshots_def split: if_splits)
  from assms(2) have "recorded_outcome env tasks ts = Some p"
    unfolding r collect_results_map_of by (simp split: if_splits)
  then have "map_of tasks ts \<noteq> None"
    by (auto simp: recorded_outcome_def split: task_run.splits if_splits option.splits)
  then show ?thesis by (simp add: map_of_eq_None_iff)
qed

lemma extract_event_screenshots_cases:
  assumes "extract_event_screenshots cfg w events session_dir = Inr events'"
  shows "events' = events
    \<or> (\<exists>tasks results.
         prepare_extraction_tasks cfg (filter is_action events)
           (clamping_duration (fst (get_video_duration_ms (probe w))))
           (session_dir @ ''/'' @ screenshot_subdir cfg) = Inr tasks
       \<and> batch_extract_screenshots cfg (tool_runs w) (completion_order w) tasks = Inr results
       \<and> events' = map (\<lambda>e. if is_action e then bind_event cfg results e else e) events)"
  using assms
  by (auto simp: extract_event_screenshots_def Let_def update_events_map write_back_map
      split: if_splits sum.splits)

lemma plan_unknown_duration:
  "prepare_extraction_tasks default_config [event_at 1000, event_at 1200, event_at 5000]
      PInf ''session/screenshots''
     = Inr [(1000, Fin 1, Path ''session/screenshots'' ''event_001_1000ms.jpg'', 0),
            (5000, Fin 5, Path ''session/screenshots'' ''event_003_5000ms.jpg'', 2)]"
proof -
  let ?es = "[event_at 1000, event_at 1200, event_at 5000]"
  have c: "candidates ?es = [1000, 1200, 5000]"
    by (simp add: candidates_def map_filter_simps event_at_def)
  have d: "deduplicate_timestamps default_config [1000, 1200, 5000] = [1000, 5000]"
    by (simp add: deduplicate_timestamps_def default_config_def)
  have f: "first_index 1000 ?es = 0" "first_index 5000 ?es = 2"
    by (simp_all add: first_index_def event_at_def)
  have n: "task_filename default_config 0 1000 = ''event_001_1000ms.jpg''"
    "task_filename default_config 2 5000 = ''event_003_5000ms.jpg''"
    by (simp_all add: fmt_eval default_config_def)
  have v: "validate_timestamp 1000 PInf = Some (Fin 1)"
    "validate_timestamp 5000 PInf = Some (Fin 5)"
    by (simp_all add: validate_timestamp_unbounded)
  show ?thesis
    unfolding prepare_extraction_tasks_closed c d by (simp add: planned_task_def f n v)
qed

lemma is_action_event_at: "is_action (event_at ts)"
  by (simp add: is_action_def event_at_def)

lemma run_calm_world:
  "extract_event_screenshots default_config calm_world
      [event_at 1000, event_at 1200, event_at 5000] ''session''
     = Inr [(event_at 1000)\<lparr>screenshot_path := Some ''screenshots/event_001_1000ms.jpg''\<rparr>,
            event_at 1200,
            (event_at 5000)\<lparr>screenshot_path := Some ''screenshots/event_003_5000ms.jpg''\<rparr>]"
proof -
  let ?results = "[(5000, Some ''event_003_5000ms.jpg''), (1000, Some ''event_001_1000ms.jpg'')]"
  have p: "fst (get_video_duration_ms (probe calm_world)) = None"
    by (simp add: get_video_duration_ms_def method_outcome_def calm_world_def)
  have w: "resolves calm_world" "video_exists calm_world" "mkdir_ok calm_world"
    "tool_runs calm_world = (\<lambda>ts. Ran (CaptureExit 0 True))" "completion_order calm_world = rev"
    by (simp_all add: calm_world_def)
  have s: "screenshot_subdir default_config = ''screenshots''"
    by (simp add: default_config_def)
  have b: "batch_extract_screenshots default_config (\<lambda>ts. Ran (CaptureExit 0 True)) rev
       [(1000, Fin 1, Path ''session/screenshots'' ''event_001_1000ms.jpg'', 0),
        (5000, Fin 5, Path ''session/screenshots'' ''event_003_5000ms.jpg'', 2)]
     = Inr ?results"
    by (simp add: batch_extract_screenshots_def default_config_def extract_single_screenshot_def)
  have u: "bind_event default_config ?results (event_at 1000)
       = (event_at 1000)\<lparr>screenshot_path := Some ''screenshots/event_001_1000ms.jpg''\<rparr>"
    "bind_event default_config ?results (event_at 1200) = event_at 1200"
    "bind_event default_config ?results (event_at 5000)
       = (event_at 5000)\<lparr>screenshot_path := Some ''screenshots/event_003_5000ms.jpg''\<rparr>"
    by (simp_all add: bind_event_def event_at_def default_config_def)
  show ?thesis
    by (simp add: extract_event_screenshots_def Let_def is_action_event_at p w s
        clamping_duration_def plan_unknown_duration b u)
qed

text \<open>
  C10. In a whole run of \<open>extract_event_screenshots\<close> that returns, the events come
  back in the same number and order, and every event whose timestamp is not among the
  timestamps kept by the deduplication is returned exactly as it was: its screenshot
  reference is not set, whatever happened to the extraction at the kept timestamp of its
  cluster. Outcomes reach events through equality of timestamps only.
\<close>

theorem dropped_timestamp_gets_no_screenshot:
  assumes "extract_event_screenshots cfg w events session_dir = Inr events'"
  shows "length events' = length events
   \<and> (\<forall>i < length events. \<forall>ts.
         timestamp_ms (events ! i) = Some ts
         \<and> ts \<notin> set (deduplicate_timestamps cfg (candidates (filter is_action events)))
         \<longrightarrow> events' ! i = events ! i)"
proof -
  from extract_event_screenshots_cases [OF assms]
  show ?thesis
  proof
    assume "events' = events"
    then show ?thesis by simp
  next
    assume "\<exists>tasks results.
         prepare_extraction_tasks cfg (filter is_action events)
           (clamping_duration (fst (get_video_duration_ms (probe w))))
           (session_dir @ ''/'' @ screenshot_subdir cfg) = Inr tasks
       \<and> batch_extract_screenshots cfg (tool_runs w) (completion_order w) tasks = Inr results
       \<and> events' = map (\<lambda>e. if is_action e then bind_event cfg results e else e) events"
    then obtain tasks results where
      plan: "prepare_extraction_tasks cfg (filter is_action events)
           (clamping_duration (fst (get_video_duration_ms (probe w))))
           (session_dir @ ''/'' @ screenshot_subdir cfg) = Inr tasks"
      and run: "batch_extract_screenshots cfg (tool_runs w) (completion_order w) tasks = Inr results"
      and ev: "events' = map (\<lambda>e. if is_action e then bind_event cfg results e else e) events"
      by blast
    have untouched: "bind_event cfg results e = e"
      if "timestamp_ms e = Some ts"
        and "ts \<notin> set (deduplicate_timestamps cfg (candidates (filter is_action events)))"
      for e ts
    proof -
      have "map_of results ts \<noteq> Some (Some p)" for p
        using batch_success_in_plan [OF run] prepared_keys_kept [OF plan] that(2) by blast
      then show ?thesis
        using that(1) by (auto simp: bind_event_def split: option.splits)
    qed
    show ?thesis
      unfolding ev using untouched by auto
  qed
qed

theorem dropped_timestamp_gets_no_screenshot_witness:
  "extract_event_screenshots default_config calm_world
      [event_at 1000, event_at 1200, event_at 5000] ''session''
     = Inr [(event_at 1000)\<lparr>screenshot_path := Some ''screenshots/event_001_1000ms.jpg''\<rparr>,
            event_at 1200,
            (event_at 5000)\<lparr>screenshot_path := Some ''screenshots/event_003_5000ms.jpg''\<rparr>]
   \<and> deduplicate_timestamps default_config
        (candidates (filter is_action [event_at 1000, event_at 1200, event_at 5000]))
       = [1000, 5000]
   \<and> timestamp_ms ([event_at 1000, event_at 1200, event_at 5000] ! 1) = Some 1200
   \<and> screenshot_path (event_at 1200) = None"
proof -
  have a: "filter is_action [event_at 1000, event_at 1200, event_at 5000]
       = [event_at 1000, event_at 1200, event_at 5000]"
    by (simp add: is_action_event_at)
  have d: "deduplicate_timestamps default_config
        (candidates (filter is_action [event_at 1000, event_at 1200, event_at 5000]))
       = [1000, 5000]"
    unfolding a
    by (simp add: candidates_def map_filter_simps event_at_def
        deduplicate_timestamps_def default_config_def)
  from dropped_timestamp_gets_no_screenshot [OF run_calm_world] run_calm_world d
  show ?thesis by (simp add: event_at_def)
qed






section \<open>Properties of the readiness gate\<close>

lemma api_call_counts:
  "uploads (api_call [UploadFile] s) = Suc (uploads s)"
  "polls (api_call [UploadFile] s) = polls s"
  "poll_sleeps (api_call [UploadFile] s) = poll_sleeps s"
  "uploads (api_call [Sleep (Suc 0), GetFile] s) = uploads s"
  "polls (api_call [Sleep (Suc 0), GetFile] s) = Suc (polls s)"
  "poll_sleeps (api_call [Sleep (Suc 0), GetFile] s) = Suc (poll_sleeps s)"
  "uploads (sleep 2 s) = uploads s"
  "polls (sleep 2 s) = polls s"
  "poll_sleeps (sleep 2 s) = poll_sleeps s"
  "api_calls (api_call done s) = Suc (api_calls s)"
  "api_calls (sleep n s) = api_calls s"
  by (simp_all add: api_call_def sleep_def uploads_def polls_def poll_sleeps_def)

lemma poll_facts:
  "poll remote n f s = (r, s') \<Longrightarrow>
     (\<forall>h. r = FoundActive h \<longrightarrow> state_name h = ''ACTIVE'')
     \<and> uploads s' = uploads s
     \<and> polls s' \<le> polls s + n
     \<and> polls s \<le> polls s'
     \<and> poll_sleeps s' + polls s = polls s' + poll_sleeps s"
proof (induction n arbitrary: f s)
  case 0
  then show ?case by auto
next
  case (Suc n)
  show ?case
  proof (cases "state_name f = ''ACTIVE''")
    case True
    with Suc.prems show ?thesis by auto
  next
    case False
    show ?thesis
    proof (cases "remote (api_calls s)")
      case ApiRaises
      with False Suc.prems show ?thesis by (auto simp: api_call_counts)
    next
      case (ApiReturns refreshed)
      with False Suc.prems
      have "poll remote n refreshed (api_call [Sleep 1, GetFile] s) = (r, s')" by simp
      from Suc.IH [OF this] show ?thesis by (auto simp: api_call_counts)
    qed
  qed
qed

lemma handle_exception_facts:
  "handle_exception a m e s = (r, s') \<Longrightarrow>
     (\<forall>h. r \<noteq> Returned h)
     \<and> uploads s' = uploads s \<and> polls s' = polls s \<and> poll_sleeps s' = poll_sleeps s
     \<and> (r = TryAgain \<longrightarrow> int a < m - 1)
     \<and> (\<forall>e'. r = Raised e' \<longrightarrow> \<not> int a < m - 1)"
  by (auto simp: handle_exception_def api_call_counts split: if_splits)

lemma upload_attempt_facts:
  assumes "upload_attempt remote a m s = (r, s')"
  shows "(\<forall>h. r = Returned h \<longrightarrow> state_name h = ''ACTIVE'')
     \<and> uploads s' = Suc (uploads s)
     \<and> polls s' \<le> polls s + 10
     \<and> polls s \<le> polls s'
     \<and> poll_sleeps s' + polls s = polls s' + poll_sleeps s
     \<and> (r = TryAgain \<longrightarrow> int a < m - 1)
     \<and> (\<forall>e. r = Raised e \<longrightarrow> \<not> int a < m - 1)"
proof (cases "remote (api_calls s)")
  case ApiRaises
  with assms have "handle_exception a m ApiError (api_call [UploadFile] s) = (r, s')"
    by (simp add: upload_attempt_def)
  from handle_exception_facts [OF this] show ?thesis
    by (auto simp: api_call_counts)
next
  case (ApiReturns f0)
  obtain pr s1 where p: "poll remote 10 f0 (api_call [UploadFile] s) = (pr, s1)"
    by (cases "poll remote 10 f0 (api_call [UploadFile] s)")
  note pf = poll_facts [OF p]
  show ?thesis
  proof (cases pr)
    case (FoundActive f)
    with assms ApiReturns p pf show ?thesis
      by (auto simp: upload_attempt_def api_call_counts)
  next
    case PollRaised
    with assms ApiReturns p have "handle_exception a m ApiError s1 = (r, s')"
      by (simp add: upload_attempt_def)
    from handle_exception_facts [OF this] pf show ?thesis
      by (auto simp: api_call_counts)
  next
    case (Exhausted f)
    show ?thesis
    proof (cases "state_name f = ''ACTIVE''")
      case True
      with assms ApiReturns p Exhausted pf show ?thesis
        by (auto simp: upload_attempt_def api_call_counts)
    next
      case False
      with assms ApiReturns p Exhausted pf show ?thesis
        by (auto simp: upload_attempt_def handle_exception_def api_call_counts split: if_splits)
    qed
  qed
qed

lemma attempts_facts:
  "last_is_final m as \<Longrightarrow> attempts remote m as s = (r, s') \<Longrightarrow>
     (\<forall>h. r = Inr (Some h) \<longrightarrow> state_name h = ''ACTIVE'')
     \<and> (as \<noteq> [] \<longrightarrow> r \<noteq> Inr None)
     \<and> (\<forall>e. r = Inl e \<longrightarrow> uploads s' = uploads s + length as)
     \<and> uploads s' \<le> uploads s + length as
     \<and> (as \<noteq> [] \<longrightarrow> uploads s < uploads s')
     \<and> uploads s \<le> uploads s'
     \<and> polls s' + 10 * uploads s \<le> polls s + 10 * uploads s'
     \<and> poll_sleeps s' + polls s = polls s' + poll_sleeps s"
proof (induction as arbitrary: s)
  case Nil
  then show ?case by auto
next
  case (Cons a as)
  obtain ar s1 where att: "upload_attempt remote a m s = (ar, s1)"
    by (cases "upload_attempt remote a m s")
  note af = upload_attempt_facts [OF att]
  from Cons.prems(1) have fin: "(int a < m - 1) = (as \<noteq> [])" and rest: "last_is_final m as"
    by simp_all
  show ?case
  proof (cases ar)
    case (Returned f)
    with Cons.prems(2) att af show ?thesis by auto
  next
    case (Raised e)
    with af fin have "as = []" by auto
    with Raised Cons.prems(2) att af show ?thesis by auto
  next
    case TryAgain
    with Cons.prems(2) att have "attempts remote m as s1 = (r, s')" by simp
    note ih = Cons.IH [OF rest this]
    from TryAgain af fin have ne: "as \<noteq> []" by auto
    from ih ne af show ?thesis by auto
  qed
qed

lemma poll_never_active:
  assumes "\<forall>k. \<exists>h. remote k = ApiReturns h \<and> state_name h \<noteq> ''ACTIVE''"
  shows "state_name f \<noteq> ''ACTIVE'' \<Longrightarrow>
     \<exists>f' s'. poll remote n f s = (Exhausted f', s') \<and> state_name f' \<noteq> ''ACTIVE''
        \<and> polls s' = polls s + n \<and> uploads s' = uploads s"
proof (induction n arbitrary: f s)
  case 0
  then show ?case by simp
next
  case (Suc n)
  from assms obtain h where h: "remote (api_calls s) = ApiReturns h" "state_name h \<noteq> ''ACTIVE''"
    by blast
  from Suc.IH [OF h(2), of "api_call [Sleep 1, GetFile] s"] Suc.prems h
  show ?case by (auto simp: api_call_counts)
qed

lemma attempt_never_active:
  assumes "\<forall>k. \<exists>h. remote k = ApiReturns h \<and> state_name h \<noteq> ''ACTIVE''"
  shows "\<exists>s'. upload_attempt remote a m s
       = ((if int a < m - 1 then TryAgain else Raised NeverActive), s')
     \<and> uploads s' = Suc (uploads s) \<and> polls s' = polls s + 10"
proof -
  from assms obtain h where h: "remote (api_calls s) = ApiReturns h" "state_name h \<noteq> ''ACTIVE''"
    by blast
  from poll_never_active [OF assms h(2), of 10 "api_call [UploadFile] s"]
  obtain f' s1 where p: "poll remote 10 h (api_call [UploadFile] s) = (Exhausted f', s1)"
    "state_name f' \<noteq> ''ACTIVE''" "polls s1 = polls (api_call [UploadFile] s) + 10"
    "uploads s1 = uploads (api_call [UploadFile] s)"
    by blast
  then show ?thesis
    using h by (auto simp: upload_attempt_def handle_exception_def api_call_counts)
qed

lemma three_attempts: "[0..<nat 3] = [0, 1, 2]" "last_is_final 3 [0, 1, 2]"
  by (simp_all add: upt_rec)

lemma initial_counts:
  "uploads \<lparr>api_calls = 0, gate_trace = []\<rparr> = 0"
  "polls \<lparr>api_calls = 0, gate_trace = []\<rparr> = 0"
  "poll_sleeps \<lparr>api_calls = 0, gate_trace = []\<rparr> = 0"
  by (simp_all add: uploads_def polls_def poll_sleeps_def)

lemma gate_never_active:
  assumes "\<forall>k. \<exists>h. remote k = ApiReturns h \<and> state_name h \<noteq> ''ACTIVE''"
  shows "\<exists>s. upload_file_with_retry remote 3 = (Inl NeverActive, s)
     \<and> uploads s = 3 \<and> polls s = 30"
proof -
  let ?s0 = "\<lparr>api_calls = 0, gate_trace = []\<rparr>"
  from attempt_never_active [OF assms, of 0 3 ?s0]
  obtain s1 where a1: "upload_attempt remote 0 3 ?s0 = (TryAgain, s1)"
    "uploads s1 = 1" "polls s1 = 10"
    by (auto simp: initial_counts)
  from attempt_never_active [OF assms, of 1 3 s1]
  obtain s2 where a2: "upload_attempt remote 1 3 s1 = (TryAgain, s2)"
    "uploads s2 = 2" "polls s2 = 20"
    using a1 by auto
  from attempt_never_active [OF assms, of 2 3 s2]
  obtain s3 where a3: "upload_attempt remote 2 3 s2 = (Raised NeverActive, s3)"
    "uploads s3 = 3" "polls s3 = 30"
    using a2 by auto
  have "upload_file_with_retry remote 3 = (Inl NeverActive, s3)"
    unfolding upload_file_with_retry_def three_attempts using a1 a2 a3 by simp
  with a3 show ?thesis by blast
qed

text \<open>
  C5. With the default of 3 attempts, the gate returns a file only when the state of that
  file is \<open>ACTIVE\<close>; it never returns without a file; it raises only after 3 uploads, that
  is, after all 3 attempts; it makes at least one and at most 3 uploads, at most 10 polls
  for each upload, and each poll after a sleep of one second. If the service never reports \<open>ACTIVE\<close> (and never fails), every attempt
  exhausts its 10 polls and is followed by a new attempt, and after 3 uploads and 30 polls
  the gate raises the terminal failure.
\<close>

theorem readiness_gate_three_attempts:
  assumes "upload_file_with_retry remote 3 = (r, s)"
  shows "(\<forall>h. r = Inr (Some h) \<longrightarrow> state_name h = ''ACTIVE'')
   \<and> r \<noteq> Inr None
   \<and> (\<forall>e. r = Inl e \<longrightarrow> uploads s = 3)
   \<and> 1 \<le> uploads s \<and> uploads s \<le> 3
   \<and> polls s \<le> 10 * uploads s
   \<and> poll_sleeps s = polls s
   \<and> ((\<forall>k. \<exists>h. remote k = ApiReturns h \<and> state_name h \<noteq> ''ACTIVE'')
        \<longrightarrow> r = Inl NeverActive \<and> uploads s = 3 \<and> polls s = 30)"
proof -
  from assms have run: "attempts remote 3 [0, 1, 2] \<lparr>api_calls = 0, gate_trace = []\<rparr> = (r, s)"
    unfolding upload_file_with_retry_def three_attempts .
  from attempts_facts [OF three_attempts(2) run]
  have general: "(\<forall>h. r = Inr (Some h) \<longrightarrow> state_name h = ''ACTIVE'')
   \<and> r \<noteq> Inr None
   \<and> (\<forall>e. r = Inl e \<longrightarrow> uploads s = 3)
   \<and> 1 \<le> uploads s \<and> uploads s \<le> 3
   \<and> polls s \<le> 10 * uploads s
   \<and> poll_sleeps s = polls s"
    by (auto simp: initial_counts)
  have never: "(\<forall>k. \<exists>h. remote k = ApiReturns h \<and> state_name h \<noteq> ''ACTIVE'')
        \<longrightarrow> r = Inl NeverActive \<and> uploads s = 3 \<and> polls s = 30"
    using gate_never_active [of remote] assms by auto
  from general never show ?thesis by blast
qed

lemma run_active_at_third:
  "upload_file_with_retry active_at_third 3
     = (Inr (Some \<lparr>handle_name = ''files/a'', state_name = ''ACTIVE''\<rparr>),
        \<lparr>api_calls = 4,
         gate_trace = [UploadFile, Sleep 1, GetFile, Sleep 1, GetFile, Sleep 1, GetFile]\<rparr>)"
  by code_simp

theorem readiness_gate_three_attempts_witness:
  "upload_file_with_retry active_at_third 3
     = (Inr (Some \<lparr>handle_name = ''files/a'', state_name = ''ACTIVE''\<rparr>),
        \<lparr>api_calls = 4,
         gate_trace = [UploadFile, Sleep 1, GetFile, Sleep 1, GetFile, Sleep 1, GetFile]\<rparr>)
   \<and> uploads \<lparr>api_calls = 4,
         gate_trace = [UploadFile, Sleep 1, GetFile, Sleep 1, GetFile, Sleep 1, GetFile]\<rparr> = 1
   \<and> polls \<lparr>api_calls = 4,
         gate_trace = [UploadFile, Sleep 1, GetFile, Sleep 1, GetFile, Sleep 1, GetFile]\<rparr> = 3
   \<and> (\<exists>s. upload_file_with_retry never_active 3 = (Inl NeverActive, s)
          \<and> uploads s = 3 \<and> polls s = 30)"
proof -
  have quiet: "\<forall>k. \<exists>h. never_active k = ApiReturns h \<and> state_name h \<noteq> ''ACTIVE''"
    by (simp add: never_active_def)
  obtain r s where run: "upload_file_with_retry never_active 3 = (r, s)"
    by (cases "upload_file_with_retry never_active 3")
  from readiness_gate_three_attempts [OF run] quiet run
  have never: "\<exists>s. upload_file_with_retry never_active 3 = (Inl NeverActive, s)
          \<and> uploads s = 3 \<and> polls s = 30"
    by blast
  from readiness_gate_three_attempts [OF run_active_at_third] run_active_at_third never
  show ?thesis by (simp add: uploads_def polls_def)
qed

section \<open>Properties of the concurrent execution\<close>

lemma count_list_update:
  "i < length ws \<Longrightarrow>
     count_list (ws[i := x]) y + (if ws ! i = y then 1 else 0)
       = count_list ws y + (if x = y then 1 else 0)"
proof (induction ws arbitrary: i)
  case Nil
  then show ?case by simp
next
  case (Cons w ws)
  show ?case
  proof (cases i)
    case 0
    then show ?thesis by simp
  next
    case (Suc j)
    with Cons.prems have "j < length ws" by simp
    from Cons.IH [OF this] Suc show ?thesis by (auto split: if_splits)
  qed
qed

lemma pool_step_balance:
  assumes "pool_step m s step = Some s'"
  shows "semaphore s' + in_flight s' = semaphore s + in_flight s"
proof (cases step)
  case (Start i)
  with assms have i: "i < length (workers s)" "workers s ! i = Queued"
    and s': "s' = s\<lparr>workers := (workers s)[i := Waiting]\<rparr>"
    by (auto split: if_splits)
  from count_list_update [OF i(1), of Waiting InFlight] i(2)
  show ?thesis by (simp add: s' in_flight_def)
next
  case (Acquire i)
  with assms have i: "i < length (workers s)" "workers s ! i = Waiting" "0 < semaphore s"
    and s': "s' = s\<lparr>semaphore := semaphore s - 1, workers := (workers s)[i := InFlight]\<rparr>"
    by (auto split: if_splits)
  from count_list_update [OF i(1), of InFlight InFlight] i(2,3)
  show ?thesis by (simp add: s' in_flight_def)
next
  case (Release i c)
  with assms have i: "i < length (workers s)" "workers s ! i = InFlight"
    and s': "s' = s\<lparr>semaphore := semaphore s + 1,
                    workers := (workers s)[i := Finished (extract_single_screenshot c)],
                    completed := completed s @ [i]\<rparr>"
    by (auto split: if_splits)
  from count_list_update [OF i(1), of "Finished (extract_single_screenshot c)" InFlight] i(2)
  show ?thesis by (simp add: s' in_flight_def)
qed

lemma run_pool_balance:
  "run_pool m s schedule = Some s' \<Longrightarrow> semaphore s' + in_flight s' = semaphore s + in_flight s"
proof (induction schedule arbitrary: s)
  case Nil
  then show ?case by simp
next
  case (Cons step schedule)
  then obtain s1 where s1: "pool_step m s step = Some s1" "run_pool m s1 schedule = Some s'"
    by (auto split: option.splits)
  from Cons.IH [OF s1(2)] pool_step_balance [OF s1(1)] show ?case by simp
qed

lemma count_list_replicate: "count_list (replicate n x) y = (if x = y then n else 0)"
  by (induction n) auto

text \<open>
  C9. In every state that an execution of a plan can reach, whatever the number of tasks
  and the interleaving of their steps, the number of tasks inside the \<open>with\<close> block of
  the semaphore, hence of capture-tool invocations in flight, is at most
  \<open>max_concurrent_extractions\<close>: the counter of the semaphore and the number of tasks
  inside always add up to the ceiling.
\<close>

theorem in_flight_within_ceiling:
  assumes "execute_plan cfg n schedule = Some s"
  shows "int (in_flight s) \<le> max_concurrent_extractions cfg
    \<and> int (semaphore s) + int (in_flight s) = max_concurrent_extractions cfg"
proof -
  from assms obtain s0 where s0: "start_pool cfg n = Some s0"
    and run: "run_pool (nat (max_concurrent_extractions cfg)) s0 schedule = Some s"
    by (auto simp: execute_plan_def split: option.splits)
  from s0 have pos: "0 < max_concurrent_extractions cfg"
    and init: "semaphore s0 = nat (max_concurrent_extractions cfg)" "in_flight s0 = 0"
    by (auto simp: start_pool_def in_flight_def count_list_replicate split: if_splits)
  from run_pool_balance [OF run] init
  have "semaphore s + in_flight s = nat (max_concurrent_extractions cfg)" by simp
  then have "int (semaphore s) + int (in_flight s) = int (nat (max_concurrent_extractions cfg))"
    by linarith
  with pos show ?thesis by simp
qed

lemma finished_tasks_update:
  assumes "i < length ws" and "\<forall>b. ws ! i \<noteq> Finished b"
  shows "finished_tasks (ws[i := x])
    = (if \<exists>b. x = Finished b then insert i (finished_tasks ws) else finished_tasks ws)"
proof -
  have "(\<exists>b. ws[i := x] ! j = Finished b)
      = (if j = i then (\<exists>b. x = Finished b) else (\<exists>b. ws ! j = Finished b))"
    if "j < length ws" for j
    using that assms(1) by (simp add: nth_list_update)
  then have "finished_tasks (ws[i := x])
      = {j. j < length ws
            \<and> (if j = i then (\<exists>b. x = Finished b) else (\<exists>b. ws ! j = Finished b))}"
    unfolding finished_tasks_def by (simp cong: conj_cong)
  also have "\<dots> = (if \<exists>b. x = Finished b then insert i (finished_tasks ws)
                    else finished_tasks ws)"
    using assms unfolding finished_tasks_def by auto
  finally show ?thesis .
qed

lemma pool_step_completed:
  assumes "pool_step m s step = Some s'"
    and "distinct (completed s)"
    and "set (completed s) = finished_tasks (workers s)"
  shows "distinct (completed s')
    \<and> set (completed s') = finished_tasks (workers s')
    \<and> length (workers s') = length (workers s)"
proof (cases step)
  case (Start i)
  with assms(1) have i: "i < length (workers s)" "workers s ! i = Queued"
    and s': "s' = s\<lparr>workers := (workers s)[i := Waiting]\<rparr>"
    by (auto split: if_splits)
  from i have "finished_tasks ((workers s)[i := Waiting]) = finished_tasks (workers s)"
    by (simp add: finished_tasks_update)
  with assms(2,3) show ?thesis by (simp add: s')
next
  case (Acquire i)
  with assms(1) have i: "i < length (workers s)" "workers s ! i = Waiting"
    and s': "s' = s\<lparr>semaphore := semaphore s - 1, workers := (workers s)[i := InFlight]\<rparr>"
    by (auto split: if_splits)
  from i have "finished_tasks ((workers s)[i := InFlight]) = finished_tasks (workers s)"
    by (simp add: finished_tasks_update)
  with assms(2,3) show ?thesis by (simp add: s')
next
  case (Release i c)
  let ?done = "Finished (extract_single_screenshot c)"
  from Release assms(1) have i: "i < length (workers s)" "workers s ! i = InFlight"
    and s': "s' = s\<lparr>semaphore := semaphore s + 1, workers := (workers s)[i := ?done],
                    completed := completed s @ [i]\<rparr>"
    by (auto split: if_splits)
  from i have upd: "finished_tasks ((workers s)[i := ?done]) = insert i (finished_tasks (workers s))"
    by (simp add: finished_tasks_update)
  from i have "i \<notin> finished_tasks (workers s)"
    by (simp add: finished_tasks_def)
  with assms(2,3) upd show ?thesis by (simp add: s')
qed

lemma run_pool_completed:
  "run_pool m s schedule = Some s' \<Longrightarrow> distinct (completed s) \<Longrightarrow>
     set (completed s) = finished_tasks (workers s) \<Longrightarrow>
     distinct (completed s')
     \<and> set (completed s') = finished_tasks (workers s')
     \<and> length (workers s') = length (workers s)"
proof (induction schedule arbitrary: s)
  case Nil
  then show ?case by simp
next
  case (Cons step schedule)
  from Cons.prems(1) obtain s1 where s1: "pool_step m s step = Some s1"
    "run_pool m s1 schedule = Some s'"
    by (auto split: option.splits)
  from pool_step_completed [OF s1(1) Cons.prems(2,3)] Cons.IH [OF s1(2)]
  show ?case by simp
qed

text \<open>
  When all tasks of an execution have finished, the order of completion lists every
  submitted task exactly once: this is the order the collection loop of the batch follows.
\<close>

lemma finished_execution_completes_each_once:
  assumes "execute_plan cfg n schedule = Some s"
    and "\<forall>w \<in> set (workers s). \<exists>b. w = Finished b"
  shows "distinct (completed s) \<and> set (completed s) = {0..<n}"
proof -
  from assms(1) obtain s0 where s0: "start_pool cfg n = Some s0"
    and run: "run_pool (nat (max_concurrent_extractions cfg)) s0 schedule = Some s"
    by (auto simp: execute_plan_def split: option.splits)
  from s0 have init: "completed s0 = []" "workers s0 = replicate n Queued"
    by (auto simp: start_pool_def split: if_splits)
  have "finished_tasks (replicate n Queued) = {}"
    by (auto simp: finished_tasks_def)
  with run_pool_completed [OF run] init
  have inv: "distinct (completed s)" "set (completed s) = finished_tasks (workers s)"
    "length (workers s) = n"
    by simp_all
  from assms(2) have "\<forall>i < length (workers s). \<exists>b. workers s ! i = Finished b"
    by (simp add: all_set_conv_all_nth)
  then have "finished_tasks (workers s) = {0..<length (workers s)}"
    unfolding finished_tasks_def by auto
  with inv show ?thesis by simp
qed

theorem in_flight_within_ceiling_witness:
  "execute_plan two_at_a_time 3
      [Start 0, Start 1, Acquire 1, Acquire 0, Release 1 (CaptureExit 0 True), Start 2, Acquire 2]
     = Some \<lparr>semaphore = 0, workers = [InFlight, Finished True, InFlight], completed = [1]\<rparr>
   \<and> in_flight \<lparr>semaphore = 0, workers = [InFlight, Finished True, InFlight], completed = [1]\<rparr> = 2
   \<and> max_concurrent_extractions two_at_a_time = 2
   \<and> execute_plan two_at_a_time 3 [Start 0, Start 1, Start 2] = None
   \<and> execute_plan two_at_a_time 3 [Start 0, Acquire 0, Start 1, Acquire 1, Release 0 CaptureTimeout,
        Start 2, Acquire 2, Release 1 (CaptureExit 1 False), Release 2 (CaptureExit 0 True)]
     = Some \<lparr>semaphore = 2, workers = [Finished False, Finished False, Finished True],
             completed = [0, 1, 2]\<rparr>"
proof -
  have ev: "execute_plan two_at_a_time 3
      [Start 0, Start 1, Acquire 1, Acquire 0, Release 1 (CaptureExit 0 True), Start 2, Acquire 2]
     = Some \<lparr>semaphore = 0, workers = [InFlight, Finished True, InFlight], completed = [1]\<rparr>"
    by code_simp
  have no: "execute_plan two_at_a_time 3 [Start 0, Start 1, Start 2] = None"
    by code_simp
  have all: "execute_plan two_at_a_time 3 [Start 0, Acquire 0, Start 1, Acquire 1,
        Release 0 CaptureTimeout,
        Start 2, Acquire 2, Release 1 (CaptureExit 1 False), Release 2 (CaptureExit 0 True)]
     = Some \<lparr>semaphore = 2, workers = [Finished False, Finished False, Finished True],
             completed = [0, 1, 2]\<rparr>"
    by code_simp
  from in_flight_within_ceiling [OF ev] ev no all
  show ?thesis by (simp add: in_flight_def two_at_a_time_def default_config_def)
qed

end
